theory Spec2Isabelle
  imports Complex_Main "HOL-Library.Multiset"
begin

section \<open>Machine integers\<close>

text \<open>
  The kernels mix \<open>int\<close> (32-bit, two's complement) and \<open>unsigned int\<close> (the
  components of \<open>threadIdx\<close>, \<open>blockIdx\<close>, \<open>blockDim\<close>). Values are kept as
  mathematical integers and every operation of the source is followed by the wrap-around of
  its C type: \<open>u32\<close> for an unsigned result, \<open>s32\<close> for a result stored in an \<open>int\<close>.
\<close>

definition u32 :: "int \<Rightarrow> int" where
  "u32 x = x mod 2 ^ 32"

definition s32 :: "int \<Rightarrow> int" where
  "s32 x = (x + 2 ^ 31) mod 2 ^ 32 - 2 ^ 31"

section \<open>Floating-point arithmetic\<close>

text \<open>
  The type of \<open>float\<close> values and the operations on it are parameters of the model: the
  kernels are translated with every arithmetic operation, comparison and literal of the
  source left as a field of the record below, in the order and association the source
  writes them. What is proved of a kernel for every such record holds for IEEE-754
  single precision as for any other arithmetic.
\<close>

record 'f fops =
  f_add :: "'f \<Rightarrow> 'f \<Rightarrow> 'f"
  f_sub :: "'f \<Rightarrow> 'f \<Rightarrow> 'f"
  f_mul :: "'f \<Rightarrow> 'f \<Rightarrow> 'f"
  f_div :: "'f \<Rightarrow> 'f \<Rightarrow> 'f"
  f_neg :: "'f \<Rightarrow> 'f"
  f_abs :: "'f \<Rightarrow> 'f"
  f_sqrt :: "'f \<Rightarrow> 'f"
  f_exp :: "'f \<Rightarrow> 'f"
  f_lt :: "'f \<Rightarrow> 'f \<Rightarrow> bool"
  f_of_int :: "int \<Rightarrow> 'f"
  f_zero :: "'f"
  f_one :: "'f"
  f_tenth :: "'f"

text \<open>
  \<open>f_zero\<close>, \<open>f_one\<close> and \<open>f_tenth\<close> are the literals \<open>0.0f\<close>, \<open>1.0f\<close> and
  \<open>0.1f\<close>; \<open>f_of_int\<close> is the conversion of an \<open>int\<close> operand to \<open>float\<close>.
  The host's aggregation runs in \<open>double\<close>, a second type with its own operations and
  the two conversions the source applies (\<open>float\<close> to \<open>double\<close>, \<open>int\<close> to
  \<open>double\<close>). The library function \<open>sqrt\<close> on \<open>double\<close> is passed on its own
  to the one function that calls it.
\<close>

record ('f, 'd) dops =
  d_add :: "'d \<Rightarrow> 'd \<Rightarrow> 'd"
  d_sub :: "'d \<Rightarrow> 'd \<Rightarrow> 'd"
  d_mul :: "'d \<Rightarrow> 'd \<Rightarrow> 'd"
  d_div :: "'d \<Rightarrow> 'd \<Rightarrow> 'd"
  d_of_float :: "'f \<Rightarrow> 'd"
  d_of_int :: "int \<Rightarrow> 'd"
  d_zero :: "'d"

section \<open>Device state\<close>

text \<open>The \<open>__constant__\<close> variables of cudran_monte_carlo_gpu.cu.\<close>

record 'f gconst =
  cN :: int
  cT :: "'f"
  cr :: "'f"
  csigma :: "'f"
  crho :: "'f"
  calpha :: "'f"
  cdt :: "'f"
  ccon1 :: "'f"
  ccon2 :: "'f"

text \<open>The two device arrays a kernel receives: the random buffer and the payoffs.\<close>

record 'f gmem =
  d_z :: "'f list"
  d_v :: "'f list"

text \<open>The built-in coordinates of one thread (their \<open>x\<close> components).\<close>

record thread =
  blockDim_x :: int
  blockIdx_x :: int
  threadIdx_x :: int

text \<open>
  An array access outside the allocation is undefined behaviour in the source; the model
  makes it the value \<open>None\<close>, which every caller propagates.
\<close>

definition load :: "'a list \<Rightarrow> int \<Rightarrow> 'a option" where
  "load a i = (if 0 \<le> i \<and> i < int (length a) then Some (a ! nat i) else None)"

definition store :: "'a list \<Rightarrow> int \<Rightarrow> 'a \<Rightarrow> 'a list option" where
  "store a i v = (if 0 \<le> i \<and> i < int (length a) then Some (a[nat i := v]) else None)"

section \<open>The path kernels\<close>

text \<open>
  \<open>i += blockDim.x\<close> in \<open>pathcalcV1\<close>: \<open>int + unsigned\<close> is computed unsigned and
  stored back into the \<open>int\<close>. \<open>i += 1\<close> in \<open>pathcalcV2\<close> is an \<open>int\<close> sum.
\<close>

definition advV1 :: "int \<Rightarrow> int \<Rightarrow> int" where
  "advV1 B i = s32 (u32 (u32 i + B))"

definition advV2 :: "int \<Rightarrow> int" where
  "advV2 i = s32 (i + 1)"

text \<open>
  The loop of \<open>pathcalcV1\<close>: \<open>n\<close> is the step counter, \<open>i\<close> the running index into
  \<open>d_z\<close>, advanced by \<open>blockDim.x\<close> after each of the two reads of a step.
\<close>

function pathloopV1 ::
  "'f fops \<Rightarrow> 'f gconst \<Rightarrow> int \<Rightarrow> 'f list \<Rightarrow> int \<Rightarrow> int \<Rightarrow> 'f \<Rightarrow> 'f \<Rightarrow> ('f \<times> 'f) option" where
  "pathloopV1 ops c B z n i s1 s2 =
     (if n < cN c then
        (case load z i of
           None \<Rightarrow> None
         | Some y1 \<Rightarrow>
             (case load z (advV1 B i) of
                None \<Rightarrow> None
              | Some w \<Rightarrow>
                  pathloopV1 ops c B z (n + 1)
                    (advV1 B (advV1 B i))
                    (f_mul ops s1 (f_add ops (ccon1 c) (f_mul ops (ccon2 c) y1)))
                    (f_mul ops s2 (f_add ops (ccon1 c) (f_mul ops (ccon2 c)
                       (f_add ops (f_mul ops (crho c) y1) (f_mul ops (calpha c) w)))))))
      else Some (s1, s2))"
  by pat_completeness auto
termination
  by (relation "measure (\<lambda>(ops, c, B, z, n, i, s1, s2). nat (cN c - n))") auto

declare pathloopV1.simps [simp del]

text \<open>The loop of \<open>pathcalcV2\<close>: the same body, the index advanced by 1 (in \<open>int\<close>).\<close>

function pathloopV2 ::
  "'f fops \<Rightarrow> 'f gconst \<Rightarrow> 'f list \<Rightarrow> int \<Rightarrow> int \<Rightarrow> 'f \<Rightarrow> 'f \<Rightarrow> ('f \<times> 'f) option" where
  "pathloopV2 ops c z n i s1 s2 =
     (if n < cN c then
        (case load z i of
           None \<Rightarrow> None
         | Some y1 \<Rightarrow>
             (case load z (advV2 i) of
                None \<Rightarrow> None
              | Some w \<Rightarrow>
                  pathloopV2 ops c z (n + 1)
                    (advV2 (advV2 i))
                    (f_mul ops s1 (f_add ops (ccon1 c) (f_mul ops (ccon2 c) y1)))
                    (f_mul ops s2 (f_add ops (ccon1 c) (f_mul ops (ccon2 c)
                       (f_add ops (f_mul ops (crho c) y1) (f_mul ops (calpha c) w)))))))
      else Some (s1, s2))"
  by pat_completeness auto
termination
  by (relation "measure (\<lambda>(ops, c, z, n, i, s1, s2). nat (cN c - n))") auto

declare pathloopV2.simps [simp del]

text \<open>
  The payoff test and value at the end of both kernels:
  \<open>fabs(s1 - 1.0f) < 0.1f && fabs(s2 - 1.0f) < 0.1f\<close>, \<open>exp(-r * T)\<close>.
\<close>

definition payoff_of :: "'f fops \<Rightarrow> 'f gconst \<Rightarrow> 'f \<times> 'f \<Rightarrow> 'f" where
  "payoff_of ops c s =
     (if f_lt ops (f_abs ops (f_sub ops (fst s) (f_one ops))) (f_tenth ops) \<and>
         f_lt ops (f_abs ops (f_sub ops (snd s) (f_one ops))) (f_tenth ops)
      then f_exp ops (f_mul ops (f_neg ops (cr c)) (cT c))
      else f_zero ops)"

text \<open>The slot of \<open>d_v\<close> a thread writes: \<open>threadIdx.x + blockIdx.x * blockDim.x\<close>.\<close>

definition pathId :: "thread \<Rightarrow> int" where
  "pathId th = u32 (threadIdx_x th + u32 (blockIdx_x th * blockDim_x th))"

text \<open>
  The first index of \<open>pathcalcV1\<close>, \<open>threadIdx.x + 2 * N * blockIdx.x * blockDim.x\<close>:
  \<open>2 * N\<close> is an \<open>int\<close> product, converted to unsigned for the products with
  \<open>blockIdx.x\<close> and \<open>blockDim.x\<close>; the unsigned sum is stored into \<open>int i\<close>.
\<close>

definition startV1 :: "'f gconst \<Rightarrow> thread \<Rightarrow> int" where
  "startV1 c th =
     s32 (u32 (threadIdx_x th +
               u32 (u32 (u32 (s32 (2 * cN c)) * blockIdx_x th) * blockDim_x th)))"

text \<open>
  The first index of \<open>pathcalcV2\<close>,
  \<open>2 * N * threadIdx.x + 2 * N * blockIdx.x * blockDim.x\<close>.
\<close>

definition startV2 :: "'f gconst \<Rightarrow> thread \<Rightarrow> int" where
  "startV2 c th =
     s32 (u32 (u32 (u32 (s32 (2 * cN c)) * threadIdx_x th) +
               u32 (u32 (u32 (s32 (2 * cN c)) * blockIdx_x th) * blockDim_x th)))"

definition pathcalcV1 :: "'f fops \<Rightarrow> 'f gconst \<Rightarrow> thread \<Rightarrow> 'f gmem \<Rightarrow> 'f gmem option" where
  "pathcalcV1 ops c th m =
     (case pathloopV1 ops c (blockDim_x th) (d_z m) 0 (startV1 c th) (f_one ops) (f_one ops) of
        None \<Rightarrow> None
      | Some s \<Rightarrow>
          (case store (d_v m) (pathId th) (payoff_of ops c s) of
             None \<Rightarrow> None
           | Some v \<Rightarrow> Some (m\<lparr>d_v := v\<rparr>)))"

definition pathcalcV2 :: "'f fops \<Rightarrow> 'f gconst \<Rightarrow> thread \<Rightarrow> 'f gmem \<Rightarrow> 'f gmem option" where
  "pathcalcV2 ops c th m =
     (case pathloopV2 ops c (d_z m) 0 (startV2 c th) (f_one ops) (f_one ops) of
        None \<Rightarrow> None
      | Some s \<Rightarrow>
          (case store (d_v m) (pathId th) (payoff_of ops c s) of
             None \<Rightarrow> None
           | Some v \<Rightarrow> Some (m\<lparr>d_v := v\<rparr>)))"

text \<open>
  The index of the \<open>k\<close>-th read of a thread (\<open>k = 2 * step + leg\<close>): the first index
  advanced \<open>k\<close> times, as the loops do.
\<close>

definition idxV1 :: "'f gconst \<Rightarrow> thread \<Rightarrow> nat \<Rightarrow> int" where
  "idxV1 c th k = (advV1 (blockDim_x th) ^^ k) (startV1 c th)"

definition idxV2 :: "'f gconst \<Rightarrow> thread \<Rightarrow> nat \<Rightarrow> int" where
  "idxV2 c th k = (advV2 ^^ k) (startV2 c th)"

text \<open>
  The thread that evaluates path \<open>p\<close> in blocks of \<open>B\<close> threads, and the buffer
  position each kernel reads for the triple (path, step, leg).
\<close>

definition thread_of :: "int \<Rightarrow> int \<Rightarrow> thread" where
  "thread_of B p = \<lparr>blockDim_x = B, blockIdx_x = p div B, threadIdx_x = p mod B\<rparr>"

definition offsetV1 :: "'f gconst \<Rightarrow> int \<Rightarrow> int \<Rightarrow> nat \<Rightarrow> nat \<Rightarrow> int" where
  "offsetV1 c B p n leg = idxV1 c (thread_of B p) (2 * n + leg)"

definition offsetV2 :: "'f gconst \<Rightarrow> int \<Rightarrow> int \<Rightarrow> nat \<Rightarrow> nat \<Rightarrow> int" where
  "offsetV2 c B p n leg = idxV2 c (thread_of B p) (2 * n + leg)"

text \<open>The pairs (leg-0 shock, leg-1 shock) a thread reads, step by step.\<close>

definition shocksV1 :: "'f gconst \<Rightarrow> thread \<Rightarrow> 'f list \<Rightarrow> ('f \<times> 'f) list" where
  "shocksV1 c th z =
     map (\<lambda>n. (z ! nat (idxV1 c th (2 * n)), z ! nat (idxV1 c th (2 * n + 1))))
       [0..<nat (cN c)]"

definition shocksV2 :: "'f gconst \<Rightarrow> thread \<Rightarrow> 'f list \<Rightarrow> ('f \<times> 'f) list" where
  "shocksV2 c th z =
     map (\<lambda>n. (z ! nat (idxV2 c th (2 * n)), z ! nat (idxV2 c th (2 * n + 1))))
       [0..<nat (cN c)]"

section \<open>The path simulator as the specification words it\<close>

text \<open>
  Section 4.3 of the specification: the correlated shock \<open>y2 = rho * y1 + alpha * w\<close>,
  the update of the two levels by one step, and the corridor payoff of the levels reached
  from \<open>s1 = s2 = 1.0\<close> over the shocks of the path. The discount \<open>exp(-r * T)\<close> is
  read as C reads it, the product of \<open>-r\<close> and \<open>T\<close>.
\<close>

definition spec_correlate :: "'f fops \<Rightarrow> 'f gconst \<Rightarrow> 'f \<Rightarrow> 'f \<Rightarrow> 'f" where
  "spec_correlate ops c y1 w = f_add ops (f_mul ops (crho c) y1) (f_mul ops (calpha c) w)"

definition spec_step :: "'f fops \<Rightarrow> 'f gconst \<Rightarrow> 'f \<times> 'f \<Rightarrow> 'f \<times> 'f \<Rightarrow> 'f \<times> 'f" where
  "spec_step ops c s sh =
     (f_mul ops (fst s) (f_add ops (ccon1 c) (f_mul ops (ccon2 c) (fst sh))),
      f_mul ops (snd s) (f_add ops (ccon1 c)
        (f_mul ops (ccon2 c) (spec_correlate ops c (fst sh) (snd sh)))))"

definition spec_levels :: "'f fops \<Rightarrow> 'f gconst \<Rightarrow> ('f \<times> 'f) list \<Rightarrow> 'f \<times> 'f" where
  "spec_levels ops c shocks = foldl (spec_step ops c) (f_one ops, f_one ops) shocks"

definition spec_payoff :: "'f fops \<Rightarrow> 'f gconst \<Rightarrow> ('f \<times> 'f) list \<Rightarrow> 'f" where
  "spec_payoff ops c shocks =
     (let s1 = fst (spec_levels ops c shocks); s2 = snd (spec_levels ops c shocks)
      in if f_lt ops (f_abs ops (f_sub ops s1 (f_one ops))) (f_tenth ops) \<and>
            f_lt ops (f_abs ops (f_sub ops s2 (f_one ops))) (f_tenth ops)
         then f_exp ops (f_mul ops (f_neg ops (cr c)) (cT c))
         else f_zero ops)"

section \<open>The host program\<close>

text \<open>
  The derived constants of \<open>main\<close> (lines 149 to 152), as functions of the base values
  the source initialises just above them.
\<close>

record 'f params =
  NPATH :: int
  h_N :: int
  h_T :: "'f"
  h_r :: "'f"
  h_sigma :: "'f"
  h_rho :: "'f"

definition derive :: "'f fops \<Rightarrow> 'f params \<Rightarrow> 'f gconst" where
  "derive ops p =
     (let h_alpha = f_sqrt ops (f_sub ops (f_one ops) (f_mul ops (h_rho p) (h_rho p)));
          h_dt = f_div ops (f_one ops) (f_of_int ops (h_N p));
          h_con1 = f_add ops (f_one ops) (f_mul ops (h_r p) h_dt);
          h_con2 = f_mul ops (f_sqrt ops h_dt) (h_sigma p)
      in \<lparr>cN = h_N p, cT = h_T p, cr = h_r p, csigma = h_sigma p, crho = h_rho p,
          calpha = h_alpha, cdt = h_dt, ccon1 = h_con1, ccon2 = h_con2\<rparr>)"

text \<open>
  The accumulation loop of \<open>main\<close> over \<open>h_v\<close>: \<open>sum1 += h_v[i]\<close> adds in \<open>double\<close>;
  in \<open>sum2 += h_v[i] * h_v[i]\<close> the product is a \<open>float\<close> product (\<open>mul\<close>),
  converted afterwards.
\<close>

fun sum_loop ::
  "('f \<Rightarrow> 'f \<Rightarrow> 'f) \<Rightarrow> ('f, 'd) dops \<Rightarrow> 'f list \<Rightarrow> 'd \<times> 'd \<Rightarrow> 'd \<times> 'd" where
  "sum_loop mul dps [] s = s"
| "sum_loop mul dps (x # xs) s =
     sum_loop mul dps xs
       (d_add dps (fst s) (d_of_float dps x),
        d_add dps (snd s) (d_of_float dps (mul x x)))"

text \<open>
  The two values \<open>main\<close> prints: \<open>sum1 / NPATH\<close> and
  \<open>sqrt((sum2 / NPATH - (sum1 / NPATH) * (sum1 / NPATH)) / NPATH)\<close>. \<open>sqrt_arg\<close> is
  the argument the source hands to \<open>sqrt\<close>, from the two sums.
\<close>

definition sqrt_arg :: "('f, 'd) dops \<Rightarrow> int \<Rightarrow> 'd \<times> 'd \<Rightarrow> 'd" where
  "sqrt_arg dps np s =
     d_div dps
       (d_sub dps (d_div dps (snd s) (d_of_int dps np))
          (d_mul dps (d_div dps (fst s) (d_of_int dps np)) (d_div dps (fst s) (d_of_int dps np))))
       (d_of_int dps np)"

definition aggregate ::
  "('f \<Rightarrow> 'f \<Rightarrow> 'f) \<Rightarrow> ('f, 'd) dops \<Rightarrow> ('d \<Rightarrow> 'd) \<Rightarrow> int \<Rightarrow> 'f list \<Rightarrow> 'd \<times> 'd" where
  "aggregate mul dps sq np hv =
     (let s = sum_loop mul dps hv (d_zero dps, d_zero dps)
      in (d_div dps (fst s) (d_of_int dps np), sq (sqrt_arg dps np s)))"

text \<open>
  A kernel launch runs the kernel once for every thread of the grid. The threads are
  taken one after the other in the order the device chooses (\<open>sched\<close>); a thread that
  faults makes the launch fail. Whole threads are the steps of the interleaving: a thread
  of these kernels reads only \<open>d_z\<close>, which no thread writes, and its single write is
  its last action.
\<close>

fun launch ::
  "(thread \<Rightarrow> 'f gmem \<Rightarrow> 'f gmem option) \<Rightarrow> thread list \<Rightarrow> 'f gmem \<Rightarrow> 'f gmem option" where
  "launch k [] m = Some m"
| "launch k (th # ths) m = (case k th m of None \<Rightarrow> None | Some m' \<Rightarrow> launch k ths m')"


text \<open>
  Modelled from the spec: the CUDA runtime and \<open>helper_cuda.h\<close> are not part of the
  sources. \<open>cudaMalloc\<close> takes the requested bytes out of the free device memory or
  reports \<open>cudaErrorMemoryAllocation\<close> when they do not fit; \<open>checkCudaErrors\<close> ends
  the program on any error (section 7: every error is fatal, none is retried), which
  \<open>mc_main\<close> below writes as the \<open>Inl\<close> branch after each checked call.
\<close>

datatype cudaError = cudaErrorMemoryAllocation | cudaErrorIllegalAddress

definition cudaMalloc :: "nat \<Rightarrow> nat \<Rightarrow> cudaError + nat" where
  "cudaMalloc free bytes =
     (if bytes \<le> free then Inr (free - bytes) else Inl cudaErrorMemoryAllocation)"

text \<open>
  What \<open>main\<close> takes from outside: the free device memory, the generator (the normal
  variate at each position of a stream of given seed and length), the contents of the
  freshly allocated \<open>d_v\<close>, and the order in which the device runs the threads.
\<close>

record 'f env =
  gmem_free :: nat
  curand_normal :: "nat \<Rightarrow> nat \<Rightarrow> nat \<Rightarrow> 'f"
  fresh :: "nat \<Rightarrow> 'f"
  sched :: "thread list"

text \<open>The device work \<open>main\<close> has started, in order, and how the run ended.\<close>

datatype event = Malloc nat | GenerateNormal nat | Kernel int int | MemcpyDtoH nat

record ('f, 'd) run =
  events :: "event list"
  outcome :: "cudaError + ('f list \<times> 'd \<times> 'd)"

definition u64 :: "int \<Rightarrow> int" where
  "u64 x = x mod 2 ^ 64"

text \<open>
  \<open>main\<close>, with the values it initialises (\<open>NPATH\<close>, \<open>h_N\<close>, \<open>h_T\<close>, \<open>h_r\<close>,
  \<open>h_sigma\<close>, \<open>h_rho\<close>) as the record \<open>p\<close>. The byte counts are \<open>size_t\<close>
  products, the count given to the generator is an \<open>int\<close> product; the seed is 1234 and
  the launch is \<open>pathcalcV2<<<NPATH / 64, 64>>>\<close> (\<open>NPATH\<close> is not negative where
  anything is proved, so that the division of C is \<open>div\<close>). \<open>d_z\<close> is the values the
  generator writes, \<open>d_v\<close> starts with whatever the fresh allocation holds. The calls
  that only print, time or copy constants are left out.
\<close>

definition mc_main ::
  "'f fops \<Rightarrow> ('f, 'd) dops \<Rightarrow> ('d \<Rightarrow> 'd) \<Rightarrow> 'f params \<Rightarrow> 'f env \<Rightarrow> ('f, 'd) run" where
  "mc_main ops dps sq p env =
     (let bytes_v = nat (u64 (4 * u64 (NPATH p)));
          bytes_z = nat (u64 (u64 (u64 (4 * 2) * u64 (h_N p)) * u64 (NPATH p)))
      in case cudaMalloc (gmem_free env) bytes_v of
           Inl e \<Rightarrow> \<lparr>events = [], outcome = Inl e\<rparr>
         | Inr free1 \<Rightarrow>
             (case cudaMalloc free1 bytes_z of
                Inl e \<Rightarrow> \<lparr>events = [Malloc bytes_v], outcome = Inl e\<rparr>
              | Inr free2 \<Rightarrow>
                  (let c = derive ops p;
                       cnt = nat (u64 (s32 (s32 (2 * h_N p) * NPATH p)));
                       m = \<lparr>d_z = map (curand_normal env 1234 cnt) [0..<cnt],
                            d_v = map (fresh env) [0..<nat (NPATH p)]\<rparr>;
                       ev = [Malloc bytes_v, Malloc bytes_z, GenerateNormal cnt,
                             Kernel (NPATH p div 64) 64]
                   in case launch (pathcalcV2 ops c) (sched env) m of
                        None \<Rightarrow> \<lparr>events = ev, outcome = Inl cudaErrorIllegalAddress\<rparr>
                      | Some m' \<Rightarrow>
                          \<lparr>events = ev @ [MemcpyDtoH (nat (u64 (4 * u64 (NPATH p))))],
                           outcome = Inr (d_v m',
                             aggregate (f_mul ops) dps sq (NPATH p) (d_v m'))\<rparr>)))"

section \<open>The polynomial example\<close>

text \<open>The \<open>__constant__\<close> variables \<open>a\<close>, \<open>b\<close>, \<open>c\<close>, \<open>thread_i\<close> of cudran_square_poly_gpu.cu.\<close>

record pconst =
  poly_a :: int
  poly_b :: int
  poly_c :: int
  thread_i :: int

text \<open>
  The loop of \<open>square_avg\<close>. \<open>bound\<close> is \<open>first_index + thread_i\<close>; \<open>iter++\<close>
  cannot overflow, since \<open>iter\<close> is below an \<open>int\<close>. The \<open>int\<close> constants are
  converted to \<open>float\<close> where they meet a \<open>float\<close> operand. In the kernel,
  \<open>index\<close> is \<open>threadIdx.x + blockIdx.x * blockDim.x\<close> (the expression of
  \<open>pathId\<close>) stored in an \<open>int\<close>, and \<open>result\<close> starts from the \<open>int\<close> 0.
\<close>

function sq_loop :: "'f fops \<Rightarrow> pconst \<Rightarrow> 'f list \<Rightarrow> int \<Rightarrow> int \<Rightarrow> 'f \<Rightarrow> 'f option" where
  "sq_loop ops k di bound iter result =
     (if iter < bound then
        (case load di iter of
           None \<Rightarrow> None
         | Some x \<Rightarrow>
             sq_loop ops k di bound (iter + 1)
               (f_add ops result
                  (f_add ops
                     (f_add ops (f_mul ops (f_mul ops (f_of_int ops (poly_a k)) x) x)
                        (f_mul ops (f_of_int ops (poly_b k)) x))
                     (f_of_int ops (poly_c k)))))
      else Some result)"
  by pat_completeness auto
termination
  by (relation "measure (\<lambda>(ops, k, di, bound, iter, result). nat (bound - iter))") auto

declare sq_loop.simps [simp del]

definition square_avg :: "'f fops \<Rightarrow> pconst \<Rightarrow> thread \<Rightarrow> 'f list \<Rightarrow> 'f list \<Rightarrow> 'f list option" where
  "square_avg ops k th di dout =
     (let index = s32 (pathId th);
          first_index = s32 (index * thread_i k)
      in case sq_loop ops k di (s32 (first_index + thread_i k)) first_index (f_of_int ops 0) of
           None \<Rightarrow> None
         | Some result \<Rightarrow> store dout index (f_div ops result (f_of_int ops (thread_i k))))"

text \<open>
  The term one input element contributes, the sum of the terms of a list of inputs in the
  order of the loop, the positions \<open>index * thread_i, ..., index * thread_i + thread_i - 1\<close>
  of the block of one output, and the inputs at these positions.
\<close>

definition poly_term :: "'f fops \<Rightarrow> pconst \<Rightarrow> 'f \<Rightarrow> 'f" where
  "poly_term ops k x =
     f_add ops
       (f_add ops (f_mul ops (f_mul ops (f_of_int ops (poly_a k)) x) x)
          (f_mul ops (f_of_int ops (poly_b k)) x))
       (f_of_int ops (poly_c k))"

definition poly_sum :: "'f fops \<Rightarrow> pconst \<Rightarrow> 'f \<Rightarrow> 'f list \<Rightarrow> 'f" where
  "poly_sum ops k r xs = foldl (\<lambda>acc x. f_add ops acc (poly_term ops k x)) r xs"

definition block_range :: "pconst \<Rightarrow> int \<Rightarrow> int set" where
  "block_range k index = {index * thread_i k ..< index * thread_i k + thread_i k}"

definition in_block :: "pconst \<Rightarrow> int \<Rightarrow> 'f list \<Rightarrow> 'f list" where
  "in_block k index di =
     map (\<lambda>iter. di ! nat iter) [index * thread_i k .. index * thread_i k + thread_i k - 1]"

section \<open>Two arithmetics\<close>

text \<open>Exact arithmetic on the reals: no rounding anywhere.\<close>

definition exact_ops :: "real fops" where
  "exact_ops =
     \<lparr>f_add = (+), f_sub = (-), f_mul = (*), f_div = (/), f_neg = uminus, f_abs = abs,
      f_sqrt = sqrt, f_exp = exp, f_lt = (<), f_of_int = of_int,
      f_zero = 0, f_one = 1, f_tenth = 1 / 10\<rparr>"

definition exact_dops :: "(real, real) dops" where
  "exact_dops =
     \<lparr>d_add = (+), d_sub = (-), d_mul = (*), d_div = (/), d_of_float = id,
      d_of_int = of_int, d_zero = 0\<rparr>"

text \<open>
  IEEE-754 binary arithmetic on the rationals, in the normal range: the exact result of an
  operation rounded to \<open>p\<close> significant bits, to nearest, ties to even. \<open>ilog2 n\<close> is the
  position of the leading bit of \<open>n\<close>, \<open>expo q\<close> the exponent \<open>e\<close> with
  \<open>2 ^ e \<le> q < 2 ^ (e + 1)\<close> for \<open>q > 0\<close>.
\<close>

function ilog2 :: "int \<Rightarrow> int" where
  "ilog2 n = (if n < 2 then 0 else 1 + ilog2 (n div 2))"
  by pat_completeness auto
termination
  by (relation "measure nat") auto

declare ilog2.simps [simp del]

definition pow2 :: "int \<Rightarrow> rat" where
  "pow2 e = (if 0 \<le> e then of_int (2 ^ nat e) else 1 / of_int (2 ^ nat (- e)))"

definition expo :: "rat \<Rightarrow> int" where
  "expo q =
     (if 1 \<le> q then ilog2 \<lfloor>q\<rfloor>
      else let n = \<lceil>1 / q\<rceil> - 1 in - (if n \<le> 0 then 0 else 1 + ilog2 n))"

definition rne :: "rat \<Rightarrow> int" where
  "rne x =
     (let f = \<lfloor>x\<rfloor>; r = x - of_int f
      in if r < 1 / 2 then f else if 1 / 2 < r then f + 1 else if even f then f else f + 1)"

definition round_to :: "nat \<Rightarrow> rat \<Rightarrow> rat" where
  "round_to p q =
     (if q = 0 then 0
      else let u = pow2 (expo \<bar>q\<bar> - int p + 1) in of_int (rne (q / u)) * u)"

text \<open>The \<open>float\<close> product (24 significant bits) and \<open>double\<close> (53 significant bits).\<close>

definition b32_mul :: "rat \<Rightarrow> rat \<Rightarrow> rat" where
  "b32_mul x y = round_to 24 (x * y)"

definition b64_dops :: "(rat, rat) dops" where
  "b64_dops =
     \<lparr>d_add = (\<lambda>x y. round_to 53 (x + y)), d_sub = (\<lambda>x y. round_to 53 (x - y)),
      d_mul = (\<lambda>x y. round_to 53 (x * y)), d_div = (\<lambda>x y. round_to 53 (x / y)),
      d_of_float = id, d_of_int = (\<lambda>i. round_to 53 (of_int i)), d_zero = 0\<rparr>"

section \<open>Configurations and runs\<close>

text \<open>
  The configurations whose sizes \<open>main\<close> can compute: positive \<open>h_N\<close> and \<open>NPATH\<close>,
  and \<open>2 * h_N * NPATH\<close>, the count \<open>main\<close> forms in \<open>int\<close>, within \<open>int\<close>. A
  configuration is valid when, moreover, the \<open>NPATH / 64\<close> blocks of 64 threads cover all
  \<open>NPATH\<close> paths. The values of the source, \<open>NPATH = 960000\<close> and \<open>h_N = 100\<close>, are
  valid.
\<close>

definition sizes_fit :: "'f params \<Rightarrow> bool" where
  "sizes_fit p \<longleftrightarrow> 0 < h_N p \<and> 0 < NPATH p \<and> 2 * h_N p * NPATH p < 2 ^ 31"

definition valid_config :: "'f params \<Rightarrow> bool" where
  "valid_config p \<longleftrightarrow> sizes_fit p \<and> 64 dvd NPATH p"

text \<open>The bytes of the two device arrays: \<open>NPATH\<close> and \<open>2 * h_N * NPATH\<close> floats.\<close>

definition bytes_needed :: "'f params \<Rightarrow> int" where
  "bytes_needed p = 4 * NPATH p + 4 * (2 * h_N p * NPATH p)"

text \<open>
  The random buffer of a run, and the payoff of every path under the contiguous layout as
  section 4.3 defines it.
\<close>

definition run_buffer :: "'f params \<Rightarrow> 'f env \<Rightarrow> 'f list" where
  "run_buffer p env =
     map (curand_normal env 1234 (nat (2 * h_N p * NPATH p))) [0..<nat (2 * h_N p * NPATH p)]"



section \<open>Laws of the arithmetic used by the degenerate cases\<close>

text \<open>
  The equalities between floating-point values that the full-correlation and the
  zero-volatility cases rest on. \<open>full_corr_laws\<close>: \<open>sqrt(1.0f - 1.0f * 1.0f)\<close> is
  \<open>0.0f\<close>, and \<open>1.0f * y + 0.0f * w\<close> is \<open>y\<close> for the values \<open>y\<close>, \<open>w\<close> of the buffer.
  In IEEE-754 arithmetic they hold for finite \<open>y\<close> and \<open>w\<close>, up to the sign of a zero
  \<open>y\<close>.
\<close>

definition full_corr_laws :: "'f fops \<Rightarrow> 'f list \<Rightarrow> bool" where
  "full_corr_laws ops z \<longleftrightarrow>
     f_sqrt ops (f_sub ops (f_one ops) (f_mul ops (f_one ops) (f_one ops))) = f_zero ops \<and>
     (\<forall>y \<in> set z. \<forall>w \<in> set z.
        f_add ops (f_mul ops (f_one ops) y) (f_mul ops (f_zero ops) w) = y)"



section \<open>Sample inputs\<close>

text \<open>
  A configuration of 64 paths of two steps, with \<open>T = 1\<close> and \<open>r = 0\<close>, and an
  environment for it: free device memory, a generator, the garbage in the fresh \<open>d_v\<close>
  and the order of the threads.
\<close>

definition sample_p :: "real \<Rightarrow> real \<Rightarrow> real params" where
  "sample_p sig rho =
     \<lparr>NPATH = 64, h_N = 2, h_T = 1, h_r = 0, h_sigma = sig, h_rho = rho\<rparr>"

definition sample_env :: "nat \<Rightarrow> real \<Rightarrow> thread list \<Rightarrow> real env" where
  "sample_env free g order =
     \<lparr>gmem_free = free, curand_normal = (\<lambda>seed cnt k. real k / 1000), fresh = (\<lambda>k. g),
      sched = order\<rparr>"


text \<open>
  Constants for concrete runs in exact arithmetic: \<open>n\<close> steps, \<open>T = 1\<close>, \<open>r = 0\<close>,
  \<open>rho = 0\<close>, \<open>alpha = 1\<close>, \<open>con1 = 1\<close>, \<open>con2 = 1 / 100\<close>.
\<close>

definition steps_c :: "int \<Rightarrow> real gconst" where
  "steps_c n =
     \<lparr>cN = n, cT = 1, cr = 0, csigma = 1 / 100, crho = 0, calpha = 1, cdt = 1,
      ccon1 = 1, ccon2 = 1 / 100\<rparr>"

text \<open>
  A launch of one block of two threads with two steps a path: thread \<open>t\<close>, the random
  buffer holding the shocks 1, 2, 3, 4 of thread 1 in the layout of \<open>pathcalcV1\<close>
  (positions 1, 3, 5, 7) and in the layout of \<open>pathcalcV2\<close> (positions 4 to 7), and a
  payoff array of two slots.
\<close>

definition sample_th :: "int \<Rightarrow> thread" where
  "sample_th t = \<lparr>blockDim_x = 2, blockIdx_x = 0, threadIdx_x = t\<rparr>"

definition sample_m1 :: "real gmem" where
  "sample_m1 = \<lparr>d_z = [0, 1, 0, 2, 0, 3, 0, 4], d_v = [7, 7]\<rparr>"

definition sample_m2 :: "real gmem" where
  "sample_m2 = \<lparr>d_z = [0, 0, 0, 0, 1, 2, 3, 4], d_v = [7, 7]\<rparr>"

text \<open>The constants \<open>main\<close> of the polynomial example sets, with blocks of two inputs.\<close>

definition sample_k :: pconst where
  "sample_k = \<lparr>poly_a = 3, poly_b = 5, poly_c = 4, thread_i = 2\<rparr>"

section \<open>Wrap-around and the kernels' loops\<close>

lemma s32_id: "- (2 ^ 31) \<le> x \<Longrightarrow> x < 2 ^ 31 \<Longrightarrow> s32 x = x"
  by (simp add: s32_def)

lemma u32_id: "0 \<le> x \<Longrightarrow> x < 2 ^ 32 \<Longrightarrow> u32 x = x"
  by (simp add: u32_def)

lemma s32_u32: "s32 (u32 x) = s32 x"
  by (simp add: s32_def u32_def mod_simps)

lemma u32_s32: "u32 (s32 x) = u32 x"
  by (simp add: s32_def u32_def mod_simps)

lemma u32_add_left: "u32 (u32 x + y) = u32 (x + y)"
  by (simp add: u32_def mod_simps)

lemma u32_add_right: "u32 (x + u32 y) = u32 (x + y)"
  by (simp add: u32_def mod_simps)

lemma u32_mult_left: "u32 (u32 x * y) = u32 (x * y)"
  by (simp add: u32_def mod_simps)

lemma advV1_plain: "advV1 B i = s32 (i + B)"
  by (simp add: advV1_def s32_u32 u32_add_left)

lemma startV1_plain:
  "startV1 c th = s32 (threadIdx_x th + 2 * cN c * blockIdx_x th * blockDim_x th)"
  by (simp add: startV1_def s32_u32 u32_add_right u32_mult_left u32_s32)

lemma startV2_plain:
  "startV2 c th =
     s32 (2 * cN c * threadIdx_x th + 2 * cN c * blockIdx_x th * blockDim_x th)"
  by (simp add: startV2_def s32_u32 u32_add_right u32_add_left u32_mult_left u32_s32)


text \<open>Both loops have the same shape; one unrolling lemma serves the two.\<close>

lemma loop_fold:
  assumes eq: "\<And>n i s1 s2. L n i s1 s2 =
     (if n < cN c then
        (case load z i of
           None \<Rightarrow> None
         | Some y1 \<Rightarrow>
             (case load z (adv i) of
                None \<Rightarrow> None
              | Some w \<Rightarrow>
                  L (n + 1) (adv (adv i))
                    (f_mul ops s1 (f_add ops (ccon1 c) (f_mul ops (ccon2 c) y1)))
                    (f_mul ops s2 (f_add ops (ccon1 c) (f_mul ops (ccon2 c)
                       (f_add ops (f_mul ops (crho c) y1) (f_mul ops (calpha c) w)))))))
      else Some (s1, s2))"
    and inb: "\<forall>k < 2 * m. 0 \<le> (adv ^^ k) i \<and> (adv ^^ k) i < int (length z)"
    and m: "m = nat (cN c - n)"
  shows "L n i s1 s2 =
     Some (foldl (spec_step ops c) (s1, s2)
       (map (\<lambda>j. (z ! nat ((adv ^^ (2 * j)) i), z ! nat ((adv ^^ (2 * j + 1)) i))) [0..<m]))"
  using inb m
proof (induction m arbitrary: n i s1 s2)
  case 0
  then show ?case by (subst eq) simp
next
  case (Suc m)
  from Suc.prems(2) have lt: "n < cN c" and m: "m = nat (cN c - (n + 1))" by auto
  from Suc.prems(1) [rule_format, of 0] have b0: "0 \<le> i \<and> i < int (length z)" by simp
  from Suc.prems(1) [rule_format, of 1] have b1: "0 \<le> adv i \<and> adv i < int (length z)" by simp
  have rest: "\<forall>k < 2 * m. 0 \<le> (adv ^^ k) (adv (adv i)) \<and>
      (adv ^^ k) (adv (adv i)) < int (length z)"
  proof (intro allI impI)
    fix k assume "k < 2 * m"
    then have "Suc (Suc k) < 2 * Suc m" by simp
    with Suc.prems(1) have "0 \<le> (adv ^^ Suc (Suc k)) i \<and> (adv ^^ Suc (Suc k)) i < int (length z)"
      by blast
    then show "0 \<le> (adv ^^ k) (adv (adv i)) \<and> (adv ^^ k) (adv (adv i)) < int (length z)"
      by (simp add: funpow_swap1)
  qed
  note ih = Suc.IH [OF rest m]
  have first: "spec_step ops c (s1, s2) (z ! nat i, z ! nat (adv i)) =
      (f_mul ops s1 (f_add ops (ccon1 c) (f_mul ops (ccon2 c) (z ! nat i))),
       f_mul ops s2 (f_add ops (ccon1 c) (f_mul ops (ccon2 c)
         (f_add ops (f_mul ops (crho c) (z ! nat i)) (f_mul ops (calpha c) (z ! nat (adv i)))))))"
    by (simp add: spec_step_def spec_correlate_def)
  have unroll: "L n i s1 s2 =
      L (n + 1) (adv (adv i))
        (fst (spec_step ops c (s1, s2) (z ! nat i, z ! nat (adv i))))
        (snd (spec_step ops c (s1, s2) (z ! nat i, z ! nat (adv i))))"
    by (subst eq) (simp add: lt load_def b0 b1 first)
  have lst: "map (\<lambda>j. (z ! nat ((adv ^^ (2 * j)) i), z ! nat ((adv ^^ (2 * j + 1)) i))) [0..<Suc m] =
      (z ! nat i, z ! nat (adv i)) #
      map (\<lambda>j. (z ! nat ((adv ^^ (2 * j)) (adv (adv i))),
                 z ! nat ((adv ^^ (2 * j + 1)) (adv (adv i))))) [0..<m]"
    by (simp add: map_upt_Suc funpow_swap1 del: upt_Suc)
  show ?case
    unfolding unroll lst by (simp add: ih)
qed

lemma pathloopV1_levels:
  assumes "\<forall>k < 2 * nat (cN c). 0 \<le> idxV1 c th k \<and> idxV1 c th k < int (length z)"
  shows "pathloopV1 ops c (blockDim_x th) z 0 (startV1 c th) (f_one ops) (f_one ops) =
     Some (spec_levels ops c (shocksV1 c th z))"
  unfolding spec_levels_def shocksV1_def idxV1_def
  by (rule loop_fold [where adv = "advV1 (blockDim_x th)"])
     (subst pathloopV1.simps, simp, use assms in \<open>simp_all add: idxV1_def\<close>)

lemma pathloopV2_levels:
  assumes "\<forall>k < 2 * nat (cN c). 0 \<le> idxV2 c th k \<and> idxV2 c th k < int (length z)"
  shows "pathloopV2 ops c z 0 (startV2 c th) (f_one ops) (f_one ops) =
     Some (spec_levels ops c (shocksV2 c th z))"
  unfolding spec_levels_def shocksV2_def idxV2_def
  by (rule loop_fold [where adv = advV2])
     (subst pathloopV2.simps, simp, use assms in \<open>simp_all add: idxV2_def\<close>)

lemma payoff_of_levels: "payoff_of ops c (spec_levels ops c sh) = spec_payoff ops c sh"
  by (simp add: payoff_of_def spec_payoff_def)

lemma pathcalcV1_result:
  assumes "\<forall>k < 2 * nat (cN c). 0 \<le> idxV1 c th k \<and> idxV1 c th k < int (length (d_z m))"
    and "pathId th < int (length (d_v m))"
  shows "pathcalcV1 ops c th m =
     Some (m\<lparr>d_v := (d_v m)[nat (pathId th) := spec_payoff ops c (shocksV1 c th (d_z m))]\<rparr>)"
proof -
  have "0 \<le> pathId th" by (simp add: pathId_def u32_def)
  with assms show ?thesis
    by (simp add: pathcalcV1_def pathloopV1_levels payoff_of_levels store_def)
qed

lemma pathcalcV2_result:
  assumes "\<forall>k < 2 * nat (cN c). 0 \<le> idxV2 c th k \<and> idxV2 c th k < int (length (d_z m))"
    and "pathId th < int (length (d_v m))"
  shows "pathcalcV2 ops c th m =
     Some (m\<lparr>d_v := (d_v m)[nat (pathId th) := spec_payoff ops c (shocksV2 c th (d_z m))]\<rparr>)"
proof -
  have "0 \<le> pathId th" by (simp add: pathId_def u32_def)
  with assms show ?thesis
    by (simp add: pathcalcV2_def pathloopV2_levels payoff_of_levels store_def)
qed

section \<open>The indices in closed form\<close>

lemma block_bound:
  fixes N p P :: int
  assumes "0 \<le> N" "0 \<le> p" "p < P" "0 \<le> k" "k < 2 * N"
  shows "0 \<le> 2 * N * p + k" "2 * N * p + k < 2 * N * P"
proof -
  from assms show "0 \<le> 2 * N * p + k" by simp
  have "2 * N * (p + 1) \<le> 2 * N * P"
    using assms by (intro mult_left_mono) auto
  then show "2 * N * p + k < 2 * N * P"
    using assms by (simp add: algebra_simps)
qed

lemma div_lt_mult:
  fixes p G B :: int
  assumes "0 < B" "p < G * B"
  shows "p div B < G"
proof (rule ccontr)
  assume "\<not> p div B < G"
  then have "G * B \<le> p div B * B"
    using assms(1) by (intro mult_right_mono) auto
  also have "\<dots> = p - p mod B"
    by (simp only: minus_mod_eq_div_mult)
  also have "\<dots> \<le> p"
    using assms(1) by simp
  finally show False using assms(2) by linarith
qed

lemma idxV2_closed:
  assumes N: "0 \<le> cN c" and B: "0 < B" and p: "0 \<le> p" "p < P"
    and fit: "2 * cN c * P < 2 ^ 31" and k: "k < 2 * nat (cN c)"
  shows "idxV2 c (thread_of B p) k = 2 * cN c * p + int k"
  using k
proof (induction k)
  case 0
  have "2 * cN c * (p mod B) + 2 * cN c * (p div B) * B =
        2 * cN c * (p mod B + p div B * B)"
    by (simp only: distrib_left mult.assoc)
  also have "\<dots> = 2 * cN c * p"
    by (simp only: mod_div_mult_eq)
  finally have "2 * cN c * (p mod B) + 2 * cN c * (p div B) * B = 2 * cN c * p" .
  moreover have "0 < int (2 * nat (cN c))" using 0 by linarith
  then have "0 \<le> 2 * cN c * p + 0" "2 * cN c * p + 0 < 2 * cN c * P"
    using N p by (intro block_bound; simp)+
  ultimately have "startV2 c (thread_of B p) = 2 * cN c * p"
    using fit unfolding startV2_plain thread_of_def
    by (simp only: thread.simps) (intro s32_id; linarith)
  then show ?case
    by (simp add: idxV2_def)
next
  case (Suc k)
  then have ih: "idxV2 c (thread_of B p) k = 2 * cN c * p + int k" by simp
  have "0 \<le> 2 * cN c * p + int (Suc k)" "2 * cN c * p + int (Suc k) < 2 * cN c * P"
    using N p Suc.prems by (intro block_bound; simp)+
  then have "s32 (2 * cN c * p + int k + 1) = 2 * cN c * p + int k + 1"
    using fit by (intro s32_id; linarith)
  then show ?case
    using ih by (simp add: idxV2_def advV2_def)
qed

lemma idxV1_closed:
  assumes N: "0 \<le> cN c" and B: "0 < B" and p: "0 \<le> p" "p < G * B"
    and fit: "2 * cN c * (G * B) < 2 ^ 31" and k: "k < 2 * nat (cN c)"
  shows "idxV1 c (thread_of B p) k = p mod B + (2 * cN c * (p div B) + int k) * B"
  using k
proof -
  have q: "0 \<le> p div B" "p div B < G"
    using p B by (simp_all add: pos_imp_zdiv_nonneg_iff div_lt_mult)
  have t: "0 \<le> p mod B" "p mod B < B" using B by simp_all
  have rng: "0 \<le> p mod B + (2 * cN c * (p div B) + j) * B \<and>
             p mod B + (2 * cN c * (p div B) + j) * B < 2 * cN c * (G * B)"
    if j: "0 \<le> j" "j < 2 * cN c" for j
  proof -
    have a: "0 \<le> 2 * cN c * (p div B) + j" "2 * cN c * (p div B) + j < 2 * cN c * G"
      using N q j by (intro block_bound; simp)+
    then have "(2 * cN c * (p div B) + j + 1) * B \<le> (2 * cN c * G) * B"
      using B by (intro mult_right_mono) auto
    then have "p mod B + (2 * cN c * (p div B) + j) * B < 2 * cN c * G * B"
      using t by (simp add: algebra_simps)
    moreover have "0 \<le> (2 * cN c * (p div B) + j) * B"
      using a B by simp
    ultimately show ?thesis using t by (simp add: mult.assoc)
  qed
  show ?thesis using k
  proof (induction k)
    case 0
    then have "0 < 2 * cN c" by linarith
    from rng [of 0] this fit
    have "s32 (p mod B + (2 * cN c * (p div B) + 0) * B) =
          p mod B + (2 * cN c * (p div B) + 0) * B"
      by (intro s32_id; linarith)
    then show ?case
      by (simp add: idxV1_def startV1_plain thread_of_def algebra_simps)
  next
    case (Suc k)
    then have ih: "idxV1 c (thread_of B p) k = p mod B + (2 * cN c * (p div B) + int k) * B"
      by simp
    from Suc.prems have "int (Suc k) < 2 * cN c" by linarith
    from rng [of "int (Suc k)"] this fit
    have "s32 (p mod B + (2 * cN c * (p div B) + int (Suc k)) * B) =
          p mod B + (2 * cN c * (p div B) + int (Suc k)) * B"
      by (intro s32_id; linarith)
    then show ?case
      using ih by (simp add: idxV1_def advV1_plain thread_of_def algebra_simps)
  qed
qed

lemma block_inj:
  fixes M :: int
  assumes "0 \<le> k" "k < M" "0 \<le> k'" "k' < M" "M * p + k = M * p' + k'"
  shows "p = p' \<and> k = k'"
proof -
  have M: "M \<noteq> 0" using assms by auto
  have d: "(M * q + j) div M = q" if "0 \<le> j" "j < M" for q j
    using that M by simp
  from d [of k p] d [of k' p'] assms have "p = p'" by metis
  with assms(5) show ?thesis by simp
qed

lemma offsetV2_closed:
  assumes "0 \<le> cN c" "0 < B" "0 \<le> p" "p < P" "2 * cN c * P < 2 ^ 31"
    "int n < cN c" "leg < 2"
  shows "offsetV2 c B p n leg = 2 * cN c * p + int (2 * n + leg)"
  unfolding offsetV2_def using assms by (intro idxV2_closed [where P = P]) auto

lemma offsetV1_closed:
  assumes "0 \<le> cN c" "0 < B" "0 \<le> p" "p < G * B" "2 * cN c * (G * B) < 2 ^ 31"
    "int n < cN c" "leg < 2"
  shows "offsetV1 c B p n leg = p mod B + (2 * cN c * (p div B) + int (2 * n + leg)) * B"
  unfolding offsetV1_def using assms by (intro idxV1_closed [where G = G]) auto


section \<open>The kernels leave the rest of the memory alone\<close>

lemma pathId_nonneg: "0 \<le> pathId th"
  by (simp add: pathId_def u32_def)

lemma pathcalcV1_frame:
  assumes "pathcalcV1 ops c th m = Some m'"
  shows "d_z m' = d_z m \<and>
    (\<exists>s. pathloopV1 ops c (blockDim_x th) (d_z m) 0 (startV1 c th) (f_one ops) (f_one ops) = Some s \<and>
         d_v m' = (d_v m)[nat (pathId th) := payoff_of ops c s])"
  using assms
  by (auto simp: pathcalcV1_def store_def split: option.splits if_splits)

lemma pathcalcV2_frame:
  assumes "pathcalcV2 ops c th m = Some m'"
  shows "d_z m' = d_z m \<and>
    (\<exists>s. pathloopV2 ops c (d_z m) 0 (startV2 c th) (f_one ops) (f_one ops) = Some s \<and>
         d_v m' = (d_v m)[nat (pathId th) := payoff_of ops c s])"
  using assms
  by (auto simp: pathcalcV2_def store_def split: option.splits if_splits)

lemma pathId_plain:
  assumes "0 \<le> threadIdx_x th" "threadIdx_x th < blockDim_x th" "0 \<le> blockIdx_x th"
    "blockIdx_x th < G" "G * blockDim_x th \<le> 2 ^ 32"
  shows "pathId th = threadIdx_x th + blockIdx_x th * blockDim_x th"
proof -
  let ?t = "threadIdx_x th" and ?b = "blockIdx_x th" and ?B = "blockDim_x th"
  have "(?b + 1) * ?B \<le> G * ?B"
    using assms by (intro mult_right_mono) auto
  then have "?t + ?b * ?B < G * ?B"
    using assms by (simp add: algebra_simps)
  moreover have "0 \<le> ?b * ?B" using assms by simp
  ultimately have "0 \<le> ?t + ?b * ?B" "?t + ?b * ?B < 2 ^ 32"
    using assms by linarith+
  then have "u32 (?t + ?b * ?B) = ?t + ?b * ?B" by (rule u32_id)
  then show ?thesis
    by (simp add: pathId_def u32_add_right)
qed

lemma shocks_agree:
  assumes "\<forall>k < 2 * nat (cN c). z1 ! nat (idxV1 c th k) = z2 ! nat (idxV2 c th k)"
  shows "shocksV1 c th z1 = shocksV2 c th z2"
  unfolding shocksV1_def shocksV2_def
proof (rule map_cong [OF refl])
  fix n assume "n \<in> set [0..<nat (cN c)]"
  then have "2 * n < 2 * nat (cN c)" "2 * n + 1 < 2 * nat (cN c)" by auto
  with assms show "(z1 ! nat (idxV1 c th (2 * n)), z1 ! nat (idxV1 c th (2 * n + 1))) =
      (z2 ! nat (idxV2 c th (2 * n)), z2 ! nat (idxV2 c th (2 * n + 1)))"
    by blast
qed

section \<open>The sample launch, evaluated\<close>

lemma sample_steps: "2 * nat (cN (steps_c 2)) = Suc (Suc (Suc (Suc 0)))"
  by (simp add: steps_c_def)

lemma sample_pathId: "pathId (sample_th 1) = 1" "pathId (sample_th 0) = 0"
  by (simp_all add: pathId_def u32_def sample_th_def)

lemma sample_idxV1:
  "idxV1 (steps_c 2) (sample_th 1) 0 = 1" "idxV1 (steps_c 2) (sample_th 1) (Suc 0) = 3"
  "idxV1 (steps_c 2) (sample_th 1) (Suc (Suc 0)) = 5"
  "idxV1 (steps_c 2) (sample_th 1) (Suc (Suc (Suc 0))) = 7"
  by (simp_all add: idxV1_def startV1_def advV1_def steps_c_def sample_th_def s32_def u32_def)

lemma sample_idxV2:
  "idxV2 (steps_c 2) (sample_th 1) 0 = 4" "idxV2 (steps_c 2) (sample_th 1) (Suc 0) = 5"
  "idxV2 (steps_c 2) (sample_th 1) (Suc (Suc 0)) = 6"
  "idxV2 (steps_c 2) (sample_th 1) (Suc (Suc (Suc 0))) = 7"
  by (simp_all add: idxV2_def startV2_def advV2_def steps_c_def sample_th_def s32_def u32_def)

lemma sample_inbV1:
  "\<forall>k < 2 * nat (cN (steps_c 2)).
     0 \<le> idxV1 (steps_c 2) (sample_th 1) k \<and>
     idxV1 (steps_c 2) (sample_th 1) k < int (length (d_z sample_m1))"
  unfolding sample_steps by (simp add: All_less_Suc sample_idxV1 sample_m1_def)

lemma sample_inbV2:
  "\<forall>k < 2 * nat (cN (steps_c 2)).
     0 \<le> idxV2 (steps_c 2) (sample_th 1) k \<and>
     idxV2 (steps_c 2) (sample_th 1) k < int (length (d_z sample_m2))"
  unfolding sample_steps by (simp add: All_less_Suc sample_idxV2 sample_m2_def)

lemma sample_slot1: "pathId (sample_th 1) < int (length (d_v sample_m1))"
  by (simp add: sample_pathId sample_m1_def)

lemma sample_slot2: "pathId (sample_th 1) < int (length (d_v sample_m2))"
  by (simp add: sample_pathId sample_m2_def)

lemma sample_upt: "[0..<nat (cN (steps_c 2))] = [0, Suc 0]"
  by (simp add: steps_c_def upt_rec)

lemma sample_shocksV1: "shocksV1 (steps_c 2) (sample_th 1) (d_z sample_m1) = [(1, 2), (3, 4)]"
  using sample_idxV1
  by (simp add: shocksV1_def sample_upt sample_m1_def numeral_2_eq_2 numeral_3_eq_3)

lemma sample_shocksV2: "shocksV2 (steps_c 2) (sample_th 1) (d_z sample_m2) = [(1, 2), (3, 4)]"
  using sample_idxV2
  by (simp add: shocksV2_def sample_upt sample_m2_def numeral_2_eq_2 numeral_3_eq_3)

lemma sample_payoff: "spec_payoff exact_ops (steps_c 2) [(1, 2), (3, 4)] = 1"
  by (simp add: spec_payoff_def spec_levels_def spec_step_def spec_correlate_def
      exact_ops_def steps_c_def)

lemma sample_same:
  "\<forall>k < 2 * nat (cN (steps_c 2)).
     d_z sample_m1 ! nat (idxV1 (steps_c 2) (sample_th 1) k) =
     d_z sample_m2 ! nat (idxV2 (steps_c 2) (sample_th 1) k)"
  unfolding sample_steps
  by (simp add: All_less_Suc sample_idxV1 sample_idxV2 sample_m1_def sample_m2_def)

section \<open>Layout: range and injectivity of the indices (C3)\<close>

text \<open>
  C3, as the code has it. With \<open>G\<close> blocks of \<open>B\<close> threads (\<open>P = G * B\<close> paths) and a
  buffer whose size \<open>2 * N * P\<close> fits the \<open>int\<close> index of the kernels, every valid triple
  (path, step, leg) is read at a position in \<open>[0, 2 * N * P)\<close> by \<open>pathcalcV1\<close> and by
  \<open>pathcalcV2\<close>, and two triples read at the same position by one kernel are the same
  triple.
\<close>

theorem offsets_in_range_and_injective:
  assumes N: "0 \<le> cN c" and B: "0 < B" and fit: "2 * cN c * (G * B) < 2 ^ 31"
    and p: "0 \<le> p" "p < G * B" and n: "int n < cN c" and leg: "leg < 2"
    and p': "0 \<le> p'" "p' < G * B" and n': "int n' < cN c" and leg': "leg' < 2"
  shows "0 \<le> offsetV1 c B p n leg \<and> offsetV1 c B p n leg < 2 * cN c * (G * B) \<and>
         0 \<le> offsetV2 c B p n leg \<and> offsetV2 c B p n leg < 2 * cN c * (G * B) \<and>
         (offsetV1 c B p n leg = offsetV1 c B p' n' leg' \<longrightarrow> p = p' \<and> n = n' \<and> leg = leg') \<and>
         (offsetV2 c B p n leg = offsetV2 c B p' n' leg' \<longrightarrow> p = p' \<and> n = n' \<and> leg = leg')"
proof -
  let ?M = "2 * cN c"
  let ?k = "int (2 * n + leg)" and ?k' = "int (2 * n' + leg')"
  have k: "0 \<le> ?k" "?k < ?M" and k': "0 \<le> ?k'" "?k' < ?M"
    using n leg n' leg' by auto
  have v2: "offsetV2 c B p n leg = ?M * p + ?k" and v2': "offsetV2 c B p' n' leg' = ?M * p' + ?k'"
    by (rule offsetV2_closed [OF N B p fit n leg], rule offsetV2_closed [OF N B p' fit n' leg'])
  have v1: "offsetV1 c B p n leg = p mod B + (?M * (p div B) + ?k) * B"
    and v1': "offsetV1 c B p' n' leg' = p' mod B + (?M * (p' div B) + ?k') * B"
    by (rule offsetV1_closed [OF N B p fit n leg], rule offsetV1_closed [OF N B p' fit n' leg'])
  have q: "0 \<le> p div B" "p div B < G" "0 \<le> p' div B" "p' div B < G"
    using p p' B by (simp_all add: pos_imp_zdiv_nonneg_iff div_lt_mult)
  have t: "0 \<le> p mod B" "p mod B < B" "0 \<le> p' mod B" "p' mod B < B" using B by simp_all
  have r2: "0 \<le> ?M * p + ?k" "?M * p + ?k < ?M * (G * B)"
    using N p k by (intro block_bound; simp)+
  have a: "0 \<le> ?M * (p div B) + ?k" "?M * (p div B) + ?k < ?M * G"
    using N q k by (intro block_bound; simp)+
  have a': "0 \<le> ?M * (p' div B) + ?k'" "?M * (p' div B) + ?k' < ?M * G"
    using N q k' by (intro block_bound; simp)+
  have "(?M * (p div B) + ?k + 1) * B \<le> (?M * G) * B"
    using a B by (intro mult_right_mono) auto
  moreover have "p mod B < B" using B by simp
  ultimately have up1: "p mod B + (?M * (p div B) + ?k) * B < ?M * (G * B)"
    by (simp only: distrib_right mult.assoc)
  have lo1: "0 \<le> p mod B + (?M * (p div B) + ?k) * B"
    using a B t by simp
  have inj2: "p = p' \<and> n = n' \<and> leg = leg'" if "?M * p + ?k = ?M * p' + ?k'"
  proof -
    from block_inj [OF k k' that] have "p = p'" "?k = ?k'" by simp_all
    with leg leg' show ?thesis by presburger
  qed
  have inj1: "p = p' \<and> n = n' \<and> leg = leg'"
    if eq: "p mod B + (?M * (p div B) + ?k) * B = p' mod B + (?M * (p' div B) + ?k') * B"
  proof -
    from eq have "B * (?M * (p div B) + ?k) + p mod B = B * (?M * (p' div B) + ?k') + p' mod B"
      by (simp add: algebra_simps)
    from block_inj [OF t this]
    have m: "p mod B = p' mod B" and "?M * (p div B) + ?k = ?M * (p' div B) + ?k'" by simp_all
    from block_inj [OF k k' this(2)] have d: "p div B = p' div B" and kk: "?k = ?k'" by simp_all
    have "p = p mod B + p div B * B" "p' = p' mod B + p' div B * B"
      by (simp_all only: mod_div_mult_eq)
    with m d have "p = p'" by simp
    moreover from kk leg leg' have "n = n' \<and> leg = leg'" by presburger
    ultimately show ?thesis by simp
  qed
  show ?thesis
    unfolding v1 v1' v2 v2' using lo1 up1 r2 inj1 inj2 by blast
qed

text \<open>
  The theorem at \<open>N = 2\<close>, two blocks of two threads: path 3, step 1, leg 1 against path 0,
  step 0, leg 0.
\<close>

theorem offsets_in_range_and_injective_witness:
  "2 * cN (steps_c 2) * (2 * 2) < 2 ^ 31 \<and>
   0 \<le> offsetV1 (steps_c 2) 2 3 1 1 \<and> offsetV1 (steps_c 2) 2 3 1 1 < 2 * 2 * (2 * 2) \<and>
   0 \<le> offsetV2 (steps_c 2) 2 3 1 1 \<and> offsetV2 (steps_c 2) 2 3 1 1 < 2 * 2 * (2 * 2) \<and>
   offsetV1 (steps_c 2) 2 3 1 1 \<noteq> offsetV1 (steps_c 2) 2 0 0 0 \<and>
   offsetV2 (steps_c 2) 2 3 1 1 \<noteq> offsetV2 (steps_c 2) 2 0 0 0"
  using offsets_in_range_and_injective [of "steps_c 2" 2 2 3 1 1 0 0 0]
  by (simp add: steps_c_def)

text \<open>
  C3 as it is stated, with no bound on the buffer size, fails: with \<open>N = 2 ^ 20\<close> steps and
  32 blocks of 64 threads (\<open>2 * N * P = 2 ^ 32\<close>), path 1024 is thread 0 of block 16, and the
  first index of both kernels is \<open>2 ^ 31\<close>, which the \<open>int\<close> index holds as \<open>- 2 ^ 31\<close>.
\<close>

theorem offsets_overflow_counterexample:
  "(1024 :: int) < 32 * 64 \<and> (0 :: int) < cN (steps_c (2 ^ 20)) \<and>
   offsetV1 (steps_c (2 ^ 20)) 64 1024 0 0 = - (2 ^ 31) \<and>
   offsetV2 (steps_c (2 ^ 20)) 64 1024 0 0 = - (2 ^ 31) \<and>
   \<not> 0 \<le> offsetV1 (steps_c (2 ^ 20)) 64 1024 0 0 \<and>
   \<not> 0 \<le> offsetV2 (steps_c (2 ^ 20)) 64 1024 0 0"
  by (simp add: offsetV1_def offsetV2_def idxV1_def idxV2_def startV1_def startV2_def
      thread_of_def steps_c_def s32_def u32_def)

section \<open>The path recurrence and payoff (C1)\<close>

text \<open>
  C1. A thread of \<open>pathcalcV2\<close> whose reads and write are inside the arrays returns, and
  what it stores in its slot is the payoff of section 4.3 for the shocks it reads: from
  \<open>s1 = s2 = 1.0\<close>, each step takes the leg-0 shock \<open>y1\<close>, forms
  \<open>y2 = rho * y1 + alpha * w\<close> from the leg-1 shock \<open>w\<close>, multiplies \<open>s1\<close> by
  \<open>con1 + con2 * y1\<close> and \<open>s2\<close> by \<open>con1 + con2 * y2\<close>; the payoff is \<open>exp(-r * T)\<close>
  when both levels are within 0.1 of 1.0, and 0.0 otherwise.
\<close>

theorem pathcalcV2_payoff:
  assumes "\<forall>k < 2 * nat (cN c). 0 \<le> idxV2 c th k \<and> idxV2 c th k < int (length (d_z m))"
    and "pathId th < int (length (d_v m))"
  shows "pathcalcV2 ops c th m =
     Some (m\<lparr>d_v := (d_v m)[nat (pathId th) := spec_payoff ops c (shocksV2 c th (d_z m))]\<rparr>)"
  using assms by (rule pathcalcV2_result)

text \<open>
  Thread 1 of one block of two, two steps: the shocks 1, 2, 3, 4 at positions 4 to 7 give
  \<open>s1 = 1.01 * 1.03\<close> and \<open>s2 = 1.02 * 1.04\<close>, inside the corridor, and the payoff
  \<open>exp 0 = 1\<close> goes to slot 1.
\<close>

theorem pathcalcV2_payoff_witness:
  "pathcalcV2 exact_ops (steps_c 2) (sample_th 1) sample_m2 =
   Some \<lparr>d_z = [0, 0, 0, 0, 1, 2, 3, 4], d_v = [7, 1]\<rparr>"
  using pathcalcV2_payoff [OF sample_inbV2 sample_slot2, of exact_ops]
    sample_shocksV2 sample_payoff sample_pathId
  by (simp add: sample_m2_def)

section \<open>The two layouts give the same payoffs (C2)\<close>

text \<open>
  C2. Let the buffer of \<open>pathcalcV1\<close> and the buffer of \<open>pathcalcV2\<close> hold the same
  shocks for a path, each in its kernel's layout: the \<open>k\<close>-th value the strided kernel
  reads is the \<open>k\<close>-th value the contiguous kernel reads. Then both kernels return and
  store the same payoff in the path's slot.
\<close>

theorem layouts_same_payoff:
  assumes in1: "\<forall>k < 2 * nat (cN c). 0 \<le> idxV1 c th k \<and> idxV1 c th k < int (length (d_z m1))"
    and in2: "\<forall>k < 2 * nat (cN c). 0 \<le> idxV2 c th k \<and> idxV2 c th k < int (length (d_z m2))"
    and slot1: "pathId th < int (length (d_v m1))"
    and slot2: "pathId th < int (length (d_v m2))"
    and same: "\<forall>k < 2 * nat (cN c). d_z m1 ! nat (idxV1 c th k) = d_z m2 ! nat (idxV2 c th k)"
  shows "\<exists>m1' m2'. pathcalcV1 ops c th m1 = Some m1' \<and> pathcalcV2 ops c th m2 = Some m2' \<and>
           d_v m1' ! nat (pathId th) = d_v m2' ! nat (pathId th)"
proof -
  have sh: "shocksV1 c th (d_z m1) = shocksV2 c th (d_z m2)"
    using same by (rule shocks_agree)
  have n1: "nat (pathId th) < length (d_v m1)" and n2: "nat (pathId th) < length (d_v m2)"
    using slot1 slot2 pathId_nonneg [of th] by linarith+
  show ?thesis
    unfolding pathcalcV1_result [OF in1 slot1] pathcalcV2_result [OF in2 slot2]
    using n1 n2 by (simp add: sh)
qed

text \<open>
  Thread 1 of the sample launch: the strided buffer has its shocks at positions 1, 3, 5, 7,
  the contiguous buffer at positions 4 to 7.
\<close>

theorem layouts_same_payoff_witness:
  "\<exists>m1' m2'.
     pathcalcV1 exact_ops (steps_c 2) (sample_th 1) sample_m1 = Some m1' \<and>
     pathcalcV2 exact_ops (steps_c 2) (sample_th 1) sample_m2 = Some m2' \<and>
     d_v m1' ! nat (pathId (sample_th 1)) = d_v m2' ! nat (pathId (sample_th 1))"
  by (rule layouts_same_payoff
      [OF sample_inbV1 sample_inbV2 sample_slot1 sample_slot2 sample_same])

section \<open>What a thread writes (C9)\<close>

text \<open>
  C9. A thread of a grid of \<open>G\<close> blocks (with \<open>G * blockDim.x\<close> within the unsigned index)
  that runs \<open>pathcalcV1\<close> or \<open>pathcalcV2\<close> to its end leaves the random buffer as it was
  and changes the payoff array in one slot only, the slot
  \<open>threadIdx.x + blockIdx.x * blockDim.x\<close>, where it puts the payoff of the levels its
  loop computed; another thread of the grid has another slot.
\<close>

theorem pathcalc_writes_own_slot:
  assumes th: "0 \<le> threadIdx_x th" "threadIdx_x th < blockDim_x th"
      "0 \<le> blockIdx_x th" "blockIdx_x th < G"
    and th': "0 \<le> threadIdx_x th'" "threadIdx_x th' < blockDim_x th'"
      "0 \<le> blockIdx_x th'" "blockIdx_x th' < G" "blockDim_x th' = blockDim_x th"
    and fit: "G * blockDim_x th \<le> 2 ^ 32"
    and r1: "pathcalcV1 ops c th m = Some m1"
    and r2: "pathcalcV2 ops c th ma = Some m2"
  shows "pathId th = threadIdx_x th + blockIdx_x th * blockDim_x th \<and>
         d_z m1 = d_z m \<and> d_z m2 = d_z ma \<and>
         (\<exists>s. pathloopV1 ops c (blockDim_x th) (d_z m) 0 (startV1 c th) (f_one ops) (f_one ops) =
                Some s \<and>
              d_v m1 = (d_v m)[nat (pathId th) := payoff_of ops c s]) \<and>
         (\<exists>s. pathloopV2 ops c (d_z ma) 0 (startV2 c th) (f_one ops) (f_one ops) = Some s \<and>
              d_v m2 = (d_v ma)[nat (pathId th) := payoff_of ops c s]) \<and>
         length (d_v m1) = length (d_v m) \<and> length (d_v m2) = length (d_v ma) \<and>
         (\<forall>j. j \<noteq> nat (pathId th) \<longrightarrow> d_v m1 ! j = d_v m ! j \<and> d_v m2 ! j = d_v ma ! j) \<and>
         (pathId th' = pathId th \<longrightarrow> th' = th)"
proof -
  have p: "pathId th = threadIdx_x th + blockIdx_x th * blockDim_x th"
    using th fit by (rule pathId_plain)
  have p': "pathId th' = threadIdx_x th' + blockIdx_x th' * blockDim_x th'"
    using th'(1-4) fit th'(5) by (intro pathId_plain [where G = G]) simp_all
  have inj: "th' = th" if "pathId th' = pathId th"
  proof -
    from that p p' th'(5)
    have "blockDim_x th * blockIdx_x th' + threadIdx_x th' =
          blockDim_x th * blockIdx_x th + threadIdx_x th"
      by (simp add: algebra_simps)
    from block_inj [OF _ _ _ _ this] th th'
    have "blockIdx_x th' = blockIdx_x th \<and> threadIdx_x th' = threadIdx_x th" by simp
    with th'(5) show ?thesis by simp
  qed
  from pathcalcV1_frame [OF r1] obtain s1 where
    f1: "d_z m1 = d_z m"
      "pathloopV1 ops c (blockDim_x th) (d_z m) 0 (startV1 c th) (f_one ops) (f_one ops) = Some s1"
      "d_v m1 = (d_v m)[nat (pathId th) := payoff_of ops c s1]"
    by blast
  from pathcalcV2_frame [OF r2] obtain s2 where
    f2: "d_z m2 = d_z ma"
      "pathloopV2 ops c (d_z ma) 0 (startV2 c th) (f_one ops) (f_one ops) = Some s2"
      "d_v m2 = (d_v ma)[nat (pathId th) := payoff_of ops c s2]"
    by blast
  have rest: "\<forall>j. j \<noteq> nat (pathId th) \<longrightarrow> d_v m1 ! j = d_v m ! j \<and> d_v m2 ! j = d_v ma ! j"
    by (simp add: f1(3) f2(3))
  show ?thesis
    using p f1 f2 rest inj by simp
qed

text \<open>
  Thread 1 of the sample launch against thread 0: slot 1 and slot 0, and slot 0 and the
  buffer are as before after thread 1 has run either kernel.
\<close>

theorem pathcalc_writes_own_slot_witness:
  "pathId (sample_th 1) = 1 \<and> pathId (sample_th 0) \<noteq> pathId (sample_th 1) \<and>
   (\<exists>m1. pathcalcV1 exact_ops (steps_c 2) (sample_th 1) sample_m1 = Some m1 \<and>
         d_z m1 = d_z sample_m1 \<and> d_v m1 ! 0 = d_v sample_m1 ! 0 \<and>
         length (d_v m1) = length (d_v sample_m1)) \<and>
   (\<exists>m2. pathcalcV2 exact_ops (steps_c 2) (sample_th 1) sample_m2 = Some m2 \<and>
         d_z m2 = d_z sample_m2 \<and> d_v m2 ! 0 = d_v sample_m2 ! 0 \<and>
         length (d_v m2) = length (d_v sample_m2))"
proof -
  obtain m1 where r1: "pathcalcV1 exact_ops (steps_c 2) (sample_th 1) sample_m1 = Some m1"
    using pathcalcV1_result [OF sample_inbV1 sample_slot1] by blast
  obtain m2 where r2: "pathcalcV2 exact_ops (steps_c 2) (sample_th 1) sample_m2 = Some m2"
    using pathcalcV2_result [OF sample_inbV2 sample_slot2] by blast
  have "sample_th 0 \<noteq> sample_th 1"
    by (simp add: sample_th_def)
  with pathcalc_writes_own_slot [of "sample_th 1" 1 "sample_th 0", OF _ _ _ _ _ _ _ _ _ _ r1 r2]
  show ?thesis
    using r1 r2 by (simp add: sample_th_def sample_pathId [unfolded sample_th_def])
qed

section \<open>The polynomial example (C10)\<close>

lemma sq_loop_sum:
  "0 \<le> iter \<Longrightarrow> bound \<le> int (length di) \<Longrightarrow>
   sq_loop ops k di bound iter r =
     Some (poly_sum ops k r (map (\<lambda>j. di ! nat j) [iter .. bound - 1]))"
proof (induction ops k di bound iter r rule: sq_loop.induct)
  case (1 ops k di bound iter r)
  show ?case
  proof (cases "iter < bound")
    case False
    then show ?thesis
      by (subst sq_loop.simps) (simp add: poly_sum_def)
  next
    case True
    with 1 have lt: "nat iter < length di" by linarith
    have ld: "load di iter = Some (di ! nat iter)"
      using True 1 by (simp add: load_def)
    have d: "[iter .. bound - 1] = iter # [iter + 1 .. bound - 1]"
      using True by (subst upto.simps) simp
    have nn: "0 \<le> iter + 1" using 1(2) by simp
    note ih = "1.IH" [OF True ld nn "1.prems"(2)]
    show ?thesis
      by (subst sq_loop.simps) (simp add: True ld ih d poly_sum_def poly_term_def)
  qed
qed


lemma block_disjoint:
  assumes "i \<noteq> j"
  shows "block_range k i \<inter> block_range k j = {}"
proof -
  let ?m = "thread_i k"
  have "False" if x: "i * ?m \<le> x" "x < i * ?m + ?m" "j * ?m \<le> x" "x < j * ?m + ?m" for x
  proof -
    from x have m: "0 < ?m" by linarith
    have le: "(a + 1) * ?m \<le> b * ?m" if "a < b" for a b :: int
      using that m by (intro mult_right_mono) auto
    from assms consider "i < j" | "j < i" by linarith
    then show False
    proof cases
      case 1
      from le [OF 1] x show False by (simp add: algebra_simps)
    next
      case 2
      from le [OF 2] x show False by (simp add: algebra_simps)
    qed
  qed
  then have F: "\<And>x. x \<in> block_range k i \<Longrightarrow> x \<in> block_range k j \<Longrightarrow> False"
    unfolding block_range_def atLeastLessThan_iff by blast
  show ?thesis
  proof (rule ccontr)
    assume "block_range k i \<inter> block_range k j \<noteq> {}"
    then obtain x where "x \<in> block_range k i" "x \<in> block_range k j" by blast
    then show False by (rule F)
  qed
qed

lemma square_avg_result:
  assumes m: "0 \<le> thread_i k"
    and blk: "(pathId th + 1) * thread_i k \<le> int (length di)"
    and len: "int (length di) < 2 ^ 31"
    and slot: "pathId th < int (length dout)" "int (length dout) < 2 ^ 31"
  shows "square_avg ops k th di dout =
     Some (dout[nat (pathId th) :=
       f_div ops (poly_sum ops k (f_of_int ops 0) (in_block k (pathId th) di))
         (f_of_int ops (thread_i k))])"
proof -
  let ?i = "pathId th" and ?m = "thread_i k"
  have i0: "0 \<le> ?i" by (rule pathId_nonneg)
  then have si: "s32 ?i = ?i" using slot by (intro s32_id) linarith+
  have f0: "0 \<le> ?i * ?m" using i0 m by simp
  have e: "(?i + 1) * ?m = ?i * ?m + ?m" by (simp add: algebra_simps)
  have sf: "s32 (?i * ?m) = ?i * ?m" using f0 m blk len unfolding e by (intro s32_id) linarith+
  have sb: "s32 (?i * ?m + ?m) = ?i * ?m + ?m"
    using f0 m blk len unfolding e by (intro s32_id) linarith+
  have loop: "sq_loop ops k di (?i * ?m + ?m) (?i * ?m) (f_of_int ops 0) =
      Some (poly_sum ops k (f_of_int ops 0) (in_block k ?i di))"
    using sq_loop_sum [OF f0, of "?i * ?m + ?m" di ops k "f_of_int ops 0"] blk
    unfolding e by (simp add: in_block_def)
  show ?thesis
    using i0 slot by (simp add: square_avg_def Let_def si sf sb loop store_def)
qed


lemma in_block_cong:
  assumes "\<forall>iter \<in> block_range k i. di' ! nat iter = di ! nat iter"
  shows "in_block k i di' = in_block k i di"
  unfolding in_block_def
  by (rule map_cong [OF refl]) (use assms in \<open>simp add: block_range_def\<close>)

text \<open>
  C10. With the blocks of all outputs inside \<open>d_i\<close> and the sizes within \<open>int\<close>, the
  thread of output \<open>index\<close> returns and writes into \<open>d_o[index]\<close> the sum, in the order of
  the loop, of \<open>a * d_i[iter] * d_i[iter] + b * d_i[iter] + c\<close> over the positions
  \<open>index * thread_i, ..., index * thread_i + thread_i - 1\<close>, divided by \<open>thread_i\<close>. An
  input that agrees on these positions gives the same result, and the positions of two
  different outputs are disjoint.
\<close>

theorem square_avg_block_average:
  assumes m: "0 \<le> thread_i k"
    and blk: "(pathId th + 1) * thread_i k \<le> int (length di)"
    and len: "int (length di) < 2 ^ 31"
    and slot: "pathId th < int (length dout)" "int (length dout) < 2 ^ 31"
  shows "square_avg ops k th di dout =
           Some (dout[nat (pathId th) :=
             f_div ops (poly_sum ops k (f_of_int ops 0) (in_block k (pathId th) di))
               (f_of_int ops (thread_i k))]) \<and>
         (\<forall>di'. length di' = length di \<and>
                (\<forall>iter \<in> block_range k (pathId th). di' ! nat iter = di ! nat iter) \<longrightarrow>
                square_avg ops k th di' dout = square_avg ops k th di dout) \<and>
         (\<forall>j. j \<noteq> pathId th \<longrightarrow> block_range k (pathId th) \<inter> block_range k j = {})"
proof -
  have "square_avg ops k th di' dout = square_avg ops k th di dout"
    if "length di' = length di"
      and "\<forall>iter \<in> block_range k (pathId th). di' ! nat iter = di ! nat iter" for di'
  proof -
    from that(1) blk len have "(pathId th + 1) * thread_i k \<le> int (length di')"
      "int (length di') < 2 ^ 31" by simp_all
    from square_avg_result [OF m this slot] square_avg_result [OF m blk len slot]
      in_block_cong [OF that(2)]
    show ?thesis by simp
  qed
  then show ?thesis
    using square_avg_result [OF m blk len slot] block_disjoint by blast
qed

text \<open>
  Output 1 with blocks of two inputs and \<open>a = 3\<close>, \<open>b = 5\<close>, \<open>c = 4\<close>: the inputs 2 and 0
  at positions 2 and 3 give (26 + 4) / 2 = 15.
\<close>

theorem square_avg_block_average_witness:
  "square_avg exact_ops sample_k (sample_th 1) [1, 1, 2, 0] [9, 9] = Some [9, 15]"
  using square_avg_block_average [of sample_k "sample_th 1" "[1, 1, 2, 0 :: real]" "[9, 9]" exact_ops]
  by (simp add: sample_pathId sample_k_def in_block_def poly_sum_def poly_term_def exact_ops_def)

section \<open>A launch over the whole grid\<close>












section \<open>The run of the host program\<close>

lemma u64_id: "0 \<le> x \<Longrightarrow> x < 2 ^ 64 \<Longrightarrow> u64 x = x"
  by (simp add: u64_def)

lemma cN_derive: "cN (derive ops p) = h_N p"
  by (simp add: derive_def Let_def)

lemma fit_sizes:
  assumes "sizes_fit p"
  shows "0 < h_N p" "0 < NPATH p" "NPATH p < 2 ^ 31" "2 * h_N p < 2 ^ 31"
    "2 * h_N p * NPATH p < 2 ^ 31"
proof -
  from assms show N: "0 < h_N p" and P: "0 < NPATH p" and f: "2 * h_N p * NPATH p < 2 ^ 31"
    by (simp_all add: sizes_fit_def)
  have "1 * NPATH p \<le> (2 * h_N p) * NPATH p"
    using N P by (intro mult_right_mono) auto
  with f show "NPATH p < 2 ^ 31" by linarith
  have "(2 * h_N p) * 1 \<le> (2 * h_N p) * NPATH p"
    using N P by (intro mult_left_mono) auto
  with f show "2 * h_N p < 2 ^ 31" by linarith
qed



lemma main_sizes:
  assumes "sizes_fit p"
  shows "u64 (4 * u64 (NPATH p)) = 4 * NPATH p"
    "u64 (u64 (u64 (4 * 2) * u64 (h_N p)) * u64 (NPATH p)) = 4 * (2 * h_N p * NPATH p)"
    "u64 (s32 (s32 (2 * h_N p) * NPATH p)) = 2 * h_N p * NPATH p"
proof -
  note v = fit_sizes [OF assms]
  have nn: "0 \<le> 2 * h_N p * NPATH p" using v(1,2) by simp
  have a: "u64 (NPATH p) = NPATH p" "u64 (h_N p) = h_N p"
    using v by (simp_all add: u64_id)
  show "u64 (4 * u64 (NPATH p)) = 4 * NPATH p"
    using v by (simp add: a u64_id)
  have "u64 (4 * 2) = 8" by (simp add: u64_def)
  moreover have "u64 (8 * h_N p) = 8 * h_N p" using v by (simp add: u64_id)
  moreover have "u64 (8 * h_N p * NPATH p) = 8 * h_N p * NPATH p"
    using nn v(5) by (intro u64_id) simp_all
  ultimately show "u64 (u64 (u64 (4 * 2) * u64 (h_N p)) * u64 (NPATH p)) = 4 * (2 * h_N p * NPATH p)"
    by (simp add: a)
  have "s32 (2 * h_N p) = 2 * h_N p" using v by (intro s32_id) simp_all
  moreover have "s32 (2 * h_N p * NPATH p) = 2 * h_N p * NPATH p"
    using nn v(5) by (intro s32_id) simp_all
  moreover have "u64 (2 * h_N p * NPATH p) = 2 * h_N p * NPATH p"
    using nn v(5) by (intro u64_id) simp_all
  ultimately show "u64 (s32 (s32 (2 * h_N p) * NPATH p)) = 2 * h_N p * NPATH p"
    by simp
qed




lemma idxV2_cN: "cN c = cN c' \<Longrightarrow> idxV2 c th k = idxV2 c' th k"
  by (simp add: idxV2_def startV2_def)

lemma sample_valid: "valid_config (sample_p sig rho)" "sizes_fit (sample_p sig rho)"
  by (simp_all add: valid_config_def sizes_fit_def sample_p_def)

lemma source_values_valid:
  "valid_config \<lparr>NPATH = 960000, h_N = 100, h_T = t, h_r = r, h_sigma = sig, h_rho = rho\<rparr>"
  by (simp add: valid_config_def sizes_fit_def)

section \<open>Allocation comes before generation (C5)\<close>

text \<open>
  C5. For a configuration whose sizes fit, \<open>main\<close> allocates the payoff array and the
  \<open>2 * N * P\<close> floats of the random buffer, each under \<open>checkCudaErrors\<close>, before it
  creates the generator. When the free device memory does not hold them, the run ends with
  \<open>cudaErrorMemoryAllocation\<close> and has started nothing but allocations: no generation,
  no kernel. When it does, the two allocations are followed by the generation of
  \<open>2 * N * P\<close> normals.
\<close>

theorem allocation_checked_before_generation:
  assumes f: "sizes_fit p"
  shows "(int (gmem_free env) < bytes_needed p \<longrightarrow>
            outcome (mc_main ops dps sq p env) = Inl cudaErrorMemoryAllocation \<and>
            (\<forall>e \<in> set (events (mc_main ops dps sq p env)). \<exists>n. e = Malloc n)) \<and>
         (bytes_needed p \<le> int (gmem_free env) \<longrightarrow>
            take 3 (events (mc_main ops dps sq p env)) =
              [Malloc (nat (4 * NPATH p)), Malloc (nat (4 * (2 * h_N p * NPATH p))),
               GenerateNormal (nat (2 * h_N p * NPATH p))])"
proof -
  note s = fit_sizes [OF f]
  have nn: "0 \<le> 2 * h_N p * NPATH p" using s(1,2) by simp
  define a b where "a = nat (4 * NPATH p)" and "b = nat (4 * (2 * h_N p * NPATH p))"
  have ab: "int a = 4 * NPATH p" "int b = 4 * (2 * h_N p * NPATH p)"
    using nn s(2) by (simp_all add: a_def b_def)
  have run: "mc_main ops dps sq p env =
     (case cudaMalloc (gmem_free env) a of
        Inl e \<Rightarrow> \<lparr>events = [], outcome = Inl e\<rparr>
      | Inr free1 \<Rightarrow>
          (case cudaMalloc free1 b of
             Inl e \<Rightarrow> \<lparr>events = [Malloc a], outcome = Inl e\<rparr>
           | Inr free2 \<Rightarrow>
               (case launch (pathcalcV2 ops (derive ops p)) (sched env)
                       \<lparr>d_z = run_buffer p env, d_v = map (fresh env) [0..<nat (NPATH p)]\<rparr> of
                  None \<Rightarrow>
                    \<lparr>events = [Malloc a, Malloc b, GenerateNormal (nat (2 * h_N p * NPATH p)),
                               Kernel (NPATH p div 64) 64],
                     outcome = Inl cudaErrorIllegalAddress\<rparr>
                | Some m' \<Rightarrow>
                    \<lparr>events = [Malloc a, Malloc b, GenerateNormal (nat (2 * h_N p * NPATH p)),
                               Kernel (NPATH p div 64) 64] @ [MemcpyDtoH a],
                     outcome = Inr (d_v m',
                       aggregate (f_mul ops) dps sq (NPATH p) (d_v m'))\<rparr>)))"
    unfolding mc_main_def main_sizes [OF f] Let_def a_def b_def run_buffer_def ..
  have low: "outcome (mc_main ops dps sq p env) = Inl cudaErrorMemoryAllocation \<and>
            (\<forall>e \<in> set (events (mc_main ops dps sq p env)). \<exists>n. e = Malloc n)"
    if "int (gmem_free env) < bytes_needed p"
  proof -
    from that ab have lt: "gmem_free env < a + b" unfolding bytes_needed_def by linarith
    show ?thesis
    proof (cases "a \<le> gmem_free env")
      case True
      with lt have "\<not> b \<le> gmem_free env - a" by linarith
      with True show ?thesis
        unfolding run by (simp add: cudaMalloc_def)
    next
      case False
      then show ?thesis
        unfolding run by (simp add: cudaMalloc_def)
    qed
  qed
  have high: "take 3 (events (mc_main ops dps sq p env)) =
      [Malloc a, Malloc b, GenerateNormal (nat (2 * h_N p * NPATH p))]"
    if "bytes_needed p \<le> int (gmem_free env)"
  proof -
    from that ab have "a + b \<le> gmem_free env" unfolding bytes_needed_def by linarith
    then have "a \<le> gmem_free env" "b \<le> gmem_free env - a" by linarith+
    then show ?thesis
      unfolding run by (simp add: cudaMalloc_def split: option.split)
  qed
  from low high show ?thesis
    unfolding a_def b_def by blast
qed

text \<open>
  The sample configuration needs 256 + 1024 bytes: with 1000 free bytes the run is fatal
  after the first allocation, with 2000 it goes on to generate its 256 normals.
\<close>

theorem allocation_checked_before_generation_witness:
  "sizes_fit (sample_p 0 0) \<and> bytes_needed (sample_p 0 0) = 1280 \<and>
   outcome (mc_main exact_ops exact_dops sqrt (sample_p 0 0) (sample_env 1000 7 [])) =
     Inl cudaErrorMemoryAllocation \<and>
   take 3 (events (mc_main exact_ops exact_dops sqrt (sample_p 0 0) (sample_env 2000 7 []))) =
     [Malloc 256, Malloc 1024, GenerateNormal 256]"
  using allocation_checked_before_generation
      [OF sample_valid(2) [of 0 0], where env = "sample_env 1000 7 []" and ops = exact_ops
        and dps = exact_dops and sq = sqrt]
    allocation_checked_before_generation
      [OF sample_valid(2) [of 0 0], where env = "sample_env 2000 7 []" and ops = exact_ops
        and dps = exact_dops and sq = sqrt]
  by (simp add: sizes_fit_def bytes_needed_def sample_p_def sample_env_def)

section \<open>Determinism (C8)\<close>



section \<open>Full correlation (C7)\<close>

lemma shocksV2_in_buffer:
  assumes "\<forall>k < 2 * nat (cN c). 0 \<le> idxV2 c th k \<and> idxV2 c th k < int (length z)"
    and "sh \<in> set (shocksV2 c th z)"
  shows "fst sh \<in> set z \<and> snd sh \<in> set z"
proof -
  from assms(2) obtain n where n: "n < nat (cN c)"
    and sh: "sh = (z ! nat (idxV2 c th (2 * n)), z ! nat (idxV2 c th (2 * n + 1)))"
    by (auto simp: shocksV2_def)
  from n have "2 * n < 2 * nat (cN c)" "2 * n + 1 < 2 * nat (cN c)" by simp_all
  with assms(1) have "nat (idxV2 c th (2 * n)) < length z" "nat (idxV2 c th (2 * n + 1)) < length z"
    by (metis nat_less_iff)+
  then show ?thesis by (simp add: sh)
qed

lemma levels_equal:
  assumes "\<forall>sh \<in> set shocks. spec_correlate ops c (fst sh) (snd sh) = fst sh"
  shows "fst (foldl (spec_step ops c) (s, s) shocks) = snd (foldl (spec_step ops c) (s, s) shocks)"
  using assms
proof (induction shocks arbitrary: s)
  case Nil
  then show ?case by simp
next
  case (Cons sh shocks)
  then have "spec_step ops c (s, s) sh =
      (f_mul ops s (f_add ops (ccon1 c) (f_mul ops (ccon2 c) (fst sh))),
       f_mul ops s (f_add ops (ccon1 c) (f_mul ops (ccon2 c) (fst sh))))"
    by (simp add: spec_step_def)
  with Cons show ?case by simp
qed

text \<open>
  C7. With \<open>h_rho = 1.0f\<close> and the laws \<open>full_corr_laws\<close>, \<open>main\<close> derives
  \<open>alpha = 0\<close>, the correlated shock of every step of a path is its leg-0 shock, and the
  loop of \<open>pathcalcV2\<close> ends with \<open>s1 = s2\<close>.
\<close>

theorem full_correlation_levels_equal:
  assumes rho: "h_rho p = f_one ops"
    and laws: "full_corr_laws ops z"
    and inb: "\<forall>k < 2 * nat (h_N p). 0 \<le> idxV2 (derive ops p) th k \<and>
                idxV2 (derive ops p) th k < int (length z)"
  shows "calpha (derive ops p) = f_zero ops \<and>
         (\<forall>sh \<in> set (shocksV2 (derive ops p) th z).
            spec_correlate ops (derive ops p) (fst sh) (snd sh) = fst sh) \<and>
         (\<exists>s. pathloopV2 ops (derive ops p) z 0 (startV2 (derive ops p) th) (f_one ops) (f_one ops) =
                Some s \<and> fst s = snd s)"
proof -
  let ?c = "derive ops p"
  have a: "calpha ?c = f_zero ops"
    using laws rho by (simp add: derive_def Let_def full_corr_laws_def)
  have r: "crho ?c = f_one ops"
    using rho by (simp add: derive_def Let_def)
  have inb': "\<forall>k < 2 * nat (cN ?c). 0 \<le> idxV2 ?c th k \<and> idxV2 ?c th k < int (length z)"
    using inb by (simp add: cN_derive)
  have y2: "\<forall>sh \<in> set (shocksV2 ?c th z). spec_correlate ops ?c (fst sh) (snd sh) = fst sh"
  proof
    fix sh assume "sh \<in> set (shocksV2 ?c th z)"
    from shocksV2_in_buffer [OF inb' this] laws
    show "spec_correlate ops ?c (fst sh) (snd sh) = fst sh"
      unfolding spec_correlate_def a r full_corr_laws_def by blast
  qed
  from levels_equal [OF y2]
  have "fst (spec_levels ops ?c (shocksV2 ?c th z)) = snd (spec_levels ops ?c (shocksV2 ?c th z))"
    by (simp add: spec_levels_def)
  with pathloopV2_levels [OF inb', of ops] a y2 show ?thesis by simp
qed

text \<open>Thread 1 of the sample launch in exact arithmetic, with correlation 1.\<close>

theorem full_correlation_levels_equal_witness:
  "calpha (derive exact_ops (sample_p (1 / 10) 1)) = 0 \<and>
   (\<exists>s. pathloopV2 exact_ops (derive exact_ops (sample_p (1 / 10) 1)) (d_z sample_m2) 0
          (startV2 (derive exact_ops (sample_p (1 / 10) 1)) (sample_th 1)) 1 1 = Some s \<and>
        fst s = snd s)"
proof -
  let ?p = "sample_p (1 / 10) 1"
  have rho: "h_rho ?p = f_one exact_ops"
    by (simp add: sample_p_def exact_ops_def)
  have laws: "full_corr_laws exact_ops (d_z sample_m2)"
    by (simp add: full_corr_laws_def exact_ops_def)
  have "cN (derive exact_ops ?p) = cN (steps_c 2)"
    by (simp add: cN_derive sample_p_def steps_c_def)
  from idxV2_cN [OF this] sample_inbV2
  have inb: "\<forall>k < 2 * nat (h_N ?p). 0 \<le> idxV2 (derive exact_ops ?p) (sample_th 1) k \<and>
      idxV2 (derive exact_ops ?p) (sample_th 1) k < int (length (d_z sample_m2))"
    by (simp add: sample_p_def steps_c_def)
  from full_correlation_levels_equal [OF rho laws inb] show ?thesis
    by (simp add: exact_ops_def)
qed

section \<open>Zero volatility (C6)\<close>







section \<open>The argument of the square root (C4)\<close>

lemma sum_loop_append:
  "sum_loop mul dps (xs @ ys) s = sum_loop mul dps ys (sum_loop mul dps xs s)"
  by (induction xs arbitrary: s) simp_all

lemma sum_loop_exact:
  "sum_loop (*) exact_dops hv (a, b) = (a + sum_list hv, b + sum_list (map (\<lambda>x. x * x) hv))"
  by (induction hv arbitrary: a b) (simp_all add: exact_dops_def algebra_simps)

lemma sum_squared_deviations:
  fixes hv :: "real list"
  shows "sum_list (map (\<lambda>x. (x - m) * (x - m)) hv) =
     sum_list (map (\<lambda>x. x * x) hv) - 2 * m * sum_list hv + real (length hv) * (m * m)"
  by (induction hv) (simp_all add: algebra_simps)

lemma exact_variance_nonneg:
  fixes hv :: "real list"
  assumes "hv \<noteq> []"
  shows "0 \<le> sum_list (map (\<lambda>x. x * x) hv) / real (length hv) -
              (sum_list hv / real (length hv)) * (sum_list hv / real (length hv))"
proof -
  let ?n = "real (length hv)" and ?s1 = "sum_list hv" and ?s2 = "sum_list (map (\<lambda>x. x * x) hv)"
  have n: "0 < ?n" using assms by simp
  have "0 \<le> sum_list (map (\<lambda>x. (x - ?s1 / ?n) * (x - ?s1 / ?n)) hv)"
    by (rule sum_list_nonneg) auto
  also have "\<dots> = ?s2 - 2 * (?s1 / ?n) * ?s1 + ?n * ((?s1 / ?n) * (?s1 / ?n))"
    by (rule sum_squared_deviations)
  also have "\<dots> = ?s2 - ?s1 * ?s1 / ?n"
    using n by (simp add: field_simps)
  finally have "0 \<le> (?s2 - ?s1 * ?s1 / ?n) / ?n"
    using n by simp
  also have "(?s2 - ?s1 * ?s1 / ?n) / ?n = ?s2 / ?n - (?s1 / ?n) * (?s1 / ?n)"
    using n by (simp add: field_simps)
  finally show ?thesis .
qed

text \<open>
  C4, as the code has it. \<open>main\<close> hands \<open>(sum2 / NPATH - mean * mean) / NPATH\<close> to
  \<open>sqrt\<close> as computed, with no clamp, in every arithmetic. In exact arithmetic this
  argument is not negative for any non-empty payoff collection, so that a negative argument
  can only come from rounding.
\<close>

theorem sqrt_argument_unclamped:
  "snd (aggregate mul dps sq np hv) = sq (sqrt_arg dps np (sum_loop mul dps hv (d_zero dps, d_zero dps))) \<and>
   (hv \<noteq> [] \<longrightarrow>
      0 \<le> sqrt_arg exact_dops (int (length hv)) (sum_loop (*) exact_dops hv (0, 0)))"
proof -
  have "0 \<le> sqrt_arg exact_dops (int (length hv)) (sum_loop (*) exact_dops hv (0, 0))"
    if "hv \<noteq> []"
  proof -
    have "sqrt_arg exact_dops (int (length hv)) (sum_loop (*) exact_dops hv (0, 0)) =
        (sum_list (map (\<lambda>x. x * x) hv) / real (length hv) -
          (sum_list hv / real (length hv)) * (sum_list hv / real (length hv))) / real (length hv)"
      unfolding sum_loop_exact by (simp add: sqrt_arg_def exact_dops_def)
    with exact_variance_nonneg [OF that] show ?thesis by simp
  qed
  then show ?thesis
    by (simp add: aggregate_def Let_def)
qed

text \<open>Two payoffs, 1 and 0, in exact arithmetic: the argument is 1 / 8.\<close>

theorem sqrt_argument_unclamped_witness:
  "snd (aggregate (*) exact_dops sqrt 2 [1, 0]) = sqrt (1 / 8) \<and>
   0 \<le> sqrt_arg exact_dops (int (length [1, 0 :: real])) (sum_loop (*) exact_dops [1, 0] (0, 0))"
  using sqrt_argument_unclamped [of "(*)" exact_dops sqrt 2 "[1, 0]"]
  by (simp add: sqrt_arg_def exact_dops_def)

text \<open>
  The sums of 64 payoffs \<open>0.99999994f = 1 - 2 ^ -24\<close> in IEEE-754 arithmetic, in four
  parts: every partial sum is exact in \<open>double\<close>, and the \<open>float\<close> square of the payoff
  is \<open>1 - 2 ^ -23\<close>, below the exact square \<open>1 - 2 ^ -23 + 2 ^ -48\<close>.
\<close>

lemma b64_chunk1:
  "sum_loop b32_mul b64_dops (replicate 16 (16777215 / 16777216)) (0, 0) =
     (16777215 / 1048576, 8388607 / 524288)"
  by code_simp

lemma b64_chunk2:
  "sum_loop b32_mul b64_dops (replicate 16 (16777215 / 16777216))
     (16777215 / 1048576, 8388607 / 524288) = (16777215 / 524288, 8388607 / 262144)"
  by code_simp

lemma b64_chunk3:
  "sum_loop b32_mul b64_dops (replicate 16 (16777215 / 16777216))
     (16777215 / 524288, 8388607 / 262144) = (50331645 / 1048576, 25165821 / 524288)"
  by code_simp

lemma b64_chunk4:
  "sum_loop b32_mul b64_dops (replicate 16 (16777215 / 16777216))
     (50331645 / 1048576, 25165821 / 524288) = (16777215 / 262144, 8388607 / 131072)"
  by code_simp

lemma b64_sum:
  "sum_loop b32_mul b64_dops (replicate 64 (16777215 / 16777216)) (0, 0) =
     (16777215 / 262144, 8388607 / 131072)"
proof -
  have "replicate 64 (16777215 / 16777216 :: rat) =
      replicate 16 (16777215 / 16777216) @ replicate 16 (16777215 / 16777216) @
      replicate 16 (16777215 / 16777216) @ replicate 16 (16777215 / 16777216)"
    by (simp flip: replicate_add)
  then show ?thesis
    by (simp only: sum_loop_append b64_chunk1 b64_chunk2 b64_chunk3 b64_chunk4)
qed

lemma b64_arg:
  "sqrt_arg b64_dops 64 (16777215 / 262144, 8388607 / 131072) = - (1 / 18014398509481984)"
  by code_simp

text \<open>
  C4 as it is stated fails: for these 64 payoffs the mean is \<open>1 - 2 ^ -24\<close>, its square
  is exact in \<open>double\<close>, \<open>sum2 / NPATH\<close> is \<open>1 - 2 ^ -23\<close>, and the argument of
  \<open>sqrt\<close> is \<open>- 2 ^ -54\<close>.
\<close>

theorem sqrt_argument_negative_counterexample:
  "sqrt_arg b64_dops 64
     (sum_loop b32_mul b64_dops (replicate 64 (16777215 / 16777216)) (d_zero b64_dops, d_zero b64_dops)) =
     - (1 / 18014398509481984) \<and>
   sqrt_arg b64_dops 64
     (sum_loop b32_mul b64_dops (replicate 64 (16777215 / 16777216)) (d_zero b64_dops, d_zero b64_dops)) < 0"
proof -
  have "d_zero b64_dops = 0" by (simp add: b64_dops_def)
  then show ?thesis
    by (simp only: b64_sum b64_arg) simp
qed

section \<open>Paths that no thread evaluates (C6, C8)\<close>








end
